theory Spec2Isabelle
  imports Main
begin

section \<open>Streaming message assembly of the Anthropic Go SDK\<close>

text \<open>
  The development embeds package \<^verbatim>\<open>streaming\<close> (type \<^verbatim>\<open>MessageStream\<close> with its methods
  \<^verbatim>\<open>Next\<close>, \<^verbatim>\<open>Err\<close>, \<^verbatim>\<open>Message\<close>, \<^verbatim>\<open>updateMessage\<close>) and the part of package
  \<^verbatim>\<open>models\<close> it works on (\<^verbatim>\<open>Message\<close>, \<^verbatim>\<open>ContentBlock\<close> and its
  \<^verbatim>\<open>UnmarshalJSON\<close>). Go strings and byte slices are \<^typ>\<open>string\<close> (a list of 8-bit
  characters), Go's \<^verbatim>\<open>int\<close> is \<^typ>\<open>int\<close>, a nil pointer is \<^const>\<open>None\<close>.
\<close>

subsection \<open>JSON texts (the part of \<^verbatim>\<open>encoding/json\<close> the package calls)\<close>

text \<open>
  \<^verbatim>\<open>json.Unmarshal\<close> belongs to Go's standard library. It is modelled here after
  RFC 8259 and the documented behaviour of \<^verbatim>\<open>encoding/json\<close>: a lexer, a pushdown
  parser over the tokens, and (further down) the decoding of a parsed value into the
  structs of the package. A number keeps its literal text, an object keeps its members
  in document order, duplicates included (Go turns the number into a \<^verbatim>\<open>float64\<close> and
  the object into a map that keeps the last of equal keys; no statement below compares
  values decoded from different texts). Three things Go does are left out: ill-formed
  UTF-8 inside a string literal is copied as it is (Go replaces it by U+FFFD),
  containers nested deeper than 10000 levels are accepted (Go rejects them), and so is a
  number literal beyond the range of \<^verbatim>\<open>float64\<close> where Go decodes into an
  \<^verbatim>\<open>interface{}\<close> (Go reports an error).
\<close>

datatype json =
    JNull
  | JBool bool
  | JNumber string
  | JString string
  | JArray "json list"
  | JObject "(string \<times> json) list"

datatype token =
    TLBrace | TRBrace | TLBrack | TRBrack | TColon | TComma
  | TStr string | TNum string | TTrue | TFalse | TNull

definition quote :: char where
  "quote = CHR 0x22"

definition backslash :: char where
  "backslash = CHR 0x5C"

definition is_json_ws :: "char \<Rightarrow> bool" where
  "is_json_ws c \<longleftrightarrow> c = CHR '' '' \<or> c = CHR 0x09 \<or> c = CHR 0x0A \<or> c = CHR 0x0D"

definition is_digit :: "char \<Rightarrow> bool" where
  "is_digit c \<longleftrightarrow> (48::nat) \<le> of_char c \<and> of_char c \<le> (57::nat)"

definition hex_val :: "char \<Rightarrow> nat option" where
  "hex_val c =
     (let n = (of_char c :: nat) in
      if 48 \<le> n \<and> n \<le> 57 then Some (n - 48)
      else if 97 \<le> n \<and> n \<le> 102 then Some (n - 87)
      else if 65 \<le> n \<and> n \<le> 70 then Some (n - 55)
      else None)"

fun hex4 :: "string \<Rightarrow> (nat \<times> string) option" where
  "hex4 (a # b # c # d # rest) =
     (case (hex_val a, hex_val b, hex_val c, hex_val d) of
        (Some w, Some x, Some y, Some z) \<Rightarrow> Some (((w * 16 + x) * 16 + y) * 16 + z, rest)
      | _ \<Rightarrow> None)"
| "hex4 _ = None"

text \<open>\<^verbatim>\<open>getu4\<close>: a \<^verbatim>\<open>\uXXXX\<close> escape at the head of the input.\<close>

fun getu4 :: "string \<Rightarrow> (nat \<times> string) option" where
  "getu4 (b # u # rest) = (if b = backslash \<and> u = CHR ''u'' then hex4 rest else None)"
| "getu4 _ = None"

definition utf8_encode :: "nat \<Rightarrow> string" where
  "utf8_encode r =
     (if r < 0x80 then [char_of r]
      else if r < 0x800 then [char_of (0xC0 + r div 64), char_of (0x80 + r mod 64)]
      else if r < 0x10000 then
        [char_of (0xE0 + r div 4096), char_of (0x80 + (r div 64) mod 64), char_of (0x80 + r mod 64)]
      else
        [char_of (0xF0 + r div 262144), char_of (0x80 + (r div 4096) mod 64),
         char_of (0x80 + (r div 64) mod 64), char_of (0x80 + r mod 64)])"

definition unescape :: "char \<Rightarrow> char option" where
  "unescape e =
     (if e = quote \<or> e = backslash \<or> e = CHR ''/'' then Some e
      else if e = CHR ''b'' then Some (CHR 0x08)
      else if e = CHR ''f'' then Some (CHR 0x0C)
      else if e = CHR ''n'' then Some (CHR 0x0A)
      else if e = CHR ''r'' then Some (CHR 0x0D)
      else if e = CHR ''t'' then Some (CHR 0x09)
      else None)"

text \<open>
  The code points a \<^verbatim>\<open>\u\<close> escape stands for, and the input after it: a high
  surrogate followed by a low one is one code point, any other surrogate is U+FFFD.
\<close>

definition unicode_escape :: "string \<Rightarrow> (nat \<times> string) option" where
  "unicode_escape cs =
     (case getu4 cs of
        None \<Rightarrow> None
      | Some (n, rest) \<Rightarrow>
          if 0xD800 \<le> n \<and> n < 0xE000 then
            (case getu4 rest of
               Some (m, rest') \<Rightarrow>
                 if n < 0xDC00 \<and> 0xDC00 \<le> m \<and> m < 0xE000
                 then Some (0x10000 + (n - 0xD800) * 0x400 + (m - 0xDC00), rest')
                 else Some (0xFFFD, rest)
             | None \<Rightarrow> Some (0xFFFD, rest))
          else Some (n, rest))"

lemma hex4_length: "hex4 cs = Some (n, rest) \<Longrightarrow> length cs = length rest + 4"
  by (induction cs rule: hex4.induct) (auto split: option.splits)

lemma getu4_length: "getu4 cs = Some (n, rest) \<Longrightarrow> length cs = length rest + 6"
  by (induction cs rule: getu4.induct) (auto split: if_splits dest: hex4_length)

lemma unicode_escape_length: "unicode_escape cs = Some (n, rest) \<Longrightarrow> length rest < length cs"
  by (auto simp: unicode_escape_def split: option.splits if_splits dest!: getu4_length)

text \<open>
  The body of a string literal, after its opening quote: the decoded bytes and the input
  after the closing quote.
\<close>

function lex_string :: "string \<Rightarrow> string \<Rightarrow> (string \<times> string) option" where
  "lex_string acc [] = None"
| "lex_string acc (c # cs) =
     (if c = quote then Some (acc, cs)
      else if c = backslash then
        (case cs of
           [] \<Rightarrow> None
         | e # cs' \<Rightarrow>
             if e = CHR ''u'' then
               (case unicode_escape (c # cs) of
                  None \<Rightarrow> None
                | Some (r, rest) \<Rightarrow> lex_string (acc @ utf8_encode r) rest)
             else
               (case unescape e of
                  None \<Rightarrow> None
                | Some ch \<Rightarrow> lex_string (acc @ [ch]) cs'))
      else if (of_char c :: nat) < 0x20 then None
      else lex_string (acc @ [c]) cs)"
  by pat_completeness auto
termination
  by (relation "measure (\<lambda>(acc, cs). length cs)") (auto dest: unicode_escape_length)

lemma lex_string_length: "lex_string acc cs = Some (s, rest) \<Longrightarrow> length rest < length cs"
proof (induction acc cs rule: lex_string.induct)
  case (1 acc)
  then show ?case by simp
next
  case (2 acc c cs)
  show ?case
  proof (cases "c = quote")
    case True
    with "2.prems" show ?thesis by simp
  next
    case nq: False
    show ?thesis
    proof (cases "c = backslash")
      case False
      with nq "2.prems" "2.IH"(3) show ?thesis
        by (fastforce split: if_splits)
    next
      case bs: True
      from nq bs "2.prems" obtain e cs' where cs: "cs = e # cs'"
        by (cases cs) auto
      show ?thesis
      proof (cases "e = CHR ''u''")
        case True
        with nq bs cs "2.prems" obtain r rest' where
          u: "unicode_escape (c # cs) = Some (r, rest')" and
          l: "lex_string (acc @ utf8_encode r) rest' = Some (s, rest)"
          by (auto split: option.splits)
        from "2.IH"(1) [OF nq bs cs True u refl l] unicode_escape_length [OF u]
        show ?thesis by simp
      next
        case False
        with nq bs cs "2.prems" obtain ch where
          u: "unescape e = Some ch" and l: "lex_string (acc @ [ch]) cs' = Some (s, rest)"
          by (auto split: option.splits)
        from "2.IH"(2) [OF nq bs cs False u l] cs show ?thesis by simp
      qed
    qed
  qed
qed

text \<open>A number literal at the head of the input: its text and the input after it.\<close>

definition lex_digits :: "string \<Rightarrow> (string \<times> string) option" where
  "lex_digits cs =
     (let ds = takeWhile is_digit cs in
      if ds = [] then None else Some (ds, dropWhile is_digit cs))"

definition lex_int_part :: "string \<Rightarrow> (string \<times> string) option" where
  "lex_int_part cs =
     (case cs of
        [] \<Rightarrow> None
      | c # cs' \<Rightarrow> if c = CHR ''0'' then Some ([c], cs') else lex_digits cs)"

definition lex_frac_part :: "string \<Rightarrow> (string \<times> string) option" where
  "lex_frac_part cs =
     (case cs of
        c # cs' \<Rightarrow>
          if c = CHR ''.'' then
            (case lex_digits cs' of None \<Rightarrow> None | Some (ds, rest) \<Rightarrow> Some (c # ds, rest))
          else Some ([], cs)
      | [] \<Rightarrow> Some ([], cs))"

definition lex_sign :: "string \<Rightarrow> string \<times> string" where
  "lex_sign cs =
     (case cs of
        c # cs' \<Rightarrow> if c = CHR ''+'' \<or> c = CHR ''-'' then ([c], cs') else ([], cs)
      | [] \<Rightarrow> ([], cs))"

definition lex_exp_part :: "string \<Rightarrow> (string \<times> string) option" where
  "lex_exp_part cs =
     (case cs of
        c # cs' \<Rightarrow>
          if c = CHR ''e'' \<or> c = CHR ''E'' then
            (case lex_sign cs' of
               (sg, cs'') \<Rightarrow>
                 (case lex_digits cs'' of
                    None \<Rightarrow> None
                  | Some (ds, rest) \<Rightarrow> Some (c # sg @ ds, rest)))
          else Some ([], cs)
      | [] \<Rightarrow> Some ([], cs))"

definition lex_number :: "string \<Rightarrow> (string \<times> string) option" where
  "lex_number cs =
     (let (minus, cs1) = (case cs of c # cs' \<Rightarrow> if c = CHR ''-'' then ([c], cs') else ([], cs)
                                    | [] \<Rightarrow> ([], cs))
      in case lex_int_part cs1 of
           None \<Rightarrow> None
         | Some (ip, cs2) \<Rightarrow>
             (case lex_frac_part cs2 of
                None \<Rightarrow> None
              | Some (fp, cs3) \<Rightarrow>
                  (case lex_exp_part cs3 of
                     None \<Rightarrow> None
                   | Some (ep, rest) \<Rightarrow> Some (minus @ ip @ fp @ ep, rest))))"

lemma lex_digits_length: "lex_digits cs = Some (ds, rest) \<Longrightarrow> length rest < length cs"
proof -
  assume a: "lex_digits cs = Some (ds, rest)"
  then have ne: "takeWhile is_digit cs \<noteq> []" and r: "rest = dropWhile is_digit cs"
    by (auto simp: lex_digits_def Let_def split: if_splits)
  have "length (takeWhile is_digit cs) + length (dropWhile is_digit cs) = length cs"
    by (metis length_append takeWhile_dropWhile_id)
  with ne r show ?thesis by (cases "takeWhile is_digit cs") auto
qed

lemma lex_int_part_length: "lex_int_part cs = Some (ip, rest) \<Longrightarrow> length rest < length cs"
  by (auto simp: lex_int_part_def split: list.splits if_splits dest: lex_digits_length)

lemma lex_frac_part_length: "lex_frac_part cs = Some (fp, rest) \<Longrightarrow> length rest \<le> length cs"
  by (auto simp: lex_frac_part_def split: list.splits if_splits option.splits
      dest: lex_digits_length)

lemma lex_exp_part_length: "lex_exp_part cs = Some (ep, rest) \<Longrightarrow> length rest \<le> length cs"
  by (auto simp: lex_exp_part_def lex_sign_def split: list.splits if_splits option.splits
      dest: lex_digits_length)

lemma lex_number_length: "lex_number cs = Some (lit, rest) \<Longrightarrow> length rest < length cs"
  by (auto simp: lex_number_def split: list.splits if_splits option.splits prod.splits
      dest!: lex_int_part_length lex_frac_part_length lex_exp_part_length)

text \<open>The lexer: white space separates tokens, anything that starts no token is an error.\<close>

function tokenize :: "string \<Rightarrow> token list option" where
  "tokenize [] = Some []"
| "tokenize (c # cs) =
     (if is_json_ws c then tokenize cs
      else if c = CHR ''{'' then map_option ((#) TLBrace) (tokenize cs)
      else if c = CHR ''}'' then map_option ((#) TRBrace) (tokenize cs)
      else if c = CHR ''['' then map_option ((#) TLBrack) (tokenize cs)
      else if c = CHR '']'' then map_option ((#) TRBrack) (tokenize cs)
      else if c = CHR '':'' then map_option ((#) TColon) (tokenize cs)
      else if c = CHR '','' then map_option ((#) TComma) (tokenize cs)
      else if c = quote then
        (case lex_string [] cs of
           None \<Rightarrow> None
         | Some (s, rest) \<Rightarrow> map_option ((#) (TStr s)) (tokenize rest))
      else if c = CHR ''-'' \<or> is_digit c then
        (case lex_number (c # cs) of
           None \<Rightarrow> None
         | Some (lit, rest) \<Rightarrow> map_option ((#) (TNum lit)) (tokenize rest))
      else if take 4 (c # cs) = ''true'' then map_option ((#) TTrue) (tokenize (drop 3 cs))
      else if take 5 (c # cs) = ''false'' then map_option ((#) TFalse) (tokenize (drop 4 cs))
      else if take 4 (c # cs) = ''null'' then map_option ((#) TNull) (tokenize (drop 3 cs))
      else None)"
  by pat_completeness auto
termination
  by (relation "measure length")
     (auto dest: lex_string_length dest!: lex_number_length)

text \<open>
  The parser reads the tokens from left to right with a stack of the containers that are
  still open: an array with its elements so far, an object with its members so far, and
  above an object the key whose value is being read.
\<close>

datatype frame =
    FArr "json list"
  | FObj "(string \<times> json) list"
  | FKey string

datatype mode =
    MValue        \<comment> \<open>a value is due\<close>
  | MFirstElem    \<comment> \<open>after \<^verbatim>\<open>[\<close>: a value or \<^verbatim>\<open>]\<close>\<close>
  | MFirstKey     \<comment> \<open>after \<^verbatim>\<open>{\<close>: a key or \<^verbatim>\<open>}\<close>\<close>
  | MKey          \<comment> \<open>after a comma in an object: a key\<close>
  | MColon        \<comment> \<open>after a key: the colon\<close>
  | MNext         \<comment> \<open>after a value in a container: a comma or the closing bracket\<close>
  | MEnd json     \<comment> \<open>the top-level value is complete\<close>

fun push_value :: "json \<Rightarrow> frame list \<Rightarrow> (mode \<times> frame list) option" where
  "push_value v [] = Some (MEnd v, [])"
| "push_value v (FArr vs # st) = Some (MNext, FArr (vs @ [v]) # st)"
| "push_value v (FKey k # FObj kvs # st) = Some (MNext, FObj (kvs @ [(k, v)]) # st)"
| "push_value v _ = None"

fun value_step :: "frame list \<Rightarrow> token \<Rightarrow> (mode \<times> frame list) option" where
  "value_step st TLBrack = Some (MFirstElem, FArr [] # st)"
| "value_step st TLBrace = Some (MFirstKey, FObj [] # st)"
| "value_step st (TStr s) = push_value (JString s) st"
| "value_step st (TNum n) = push_value (JNumber n) st"
| "value_step st TTrue = push_value (JBool True) st"
| "value_step st TFalse = push_value (JBool False) st"
| "value_step st TNull = push_value JNull st"
| "value_step st _ = None"

fun key_step :: "frame list \<Rightarrow> token \<Rightarrow> (mode \<times> frame list) option" where
  "key_step st (TStr k) = Some (MColon, FKey k # st)"
| "key_step st _ = None"

fun close_step :: "frame list \<Rightarrow> token \<Rightarrow> (mode \<times> frame list) option" where
  "close_step (FArr vs # st) TRBrack = push_value (JArray vs) st"
| "close_step (FObj kvs # st) TRBrace = push_value (JObject kvs) st"
| "close_step _ _ = None"

fun next_step :: "frame list \<Rightarrow> token \<Rightarrow> (mode \<times> frame list) option" where
  "next_step (FArr vs # st) TComma = Some (MValue, FArr vs # st)"
| "next_step (FObj kvs # st) TComma = Some (MKey, FObj kvs # st)"
| "next_step st t = close_step st t"

fun parse_step :: "mode \<Rightarrow> frame list \<Rightarrow> token \<Rightarrow> (mode \<times> frame list) option" where
  "parse_step MValue st t = value_step st t"
| "parse_step MFirstElem st t = (if t = TRBrack then close_step st t else value_step st t)"
| "parse_step MFirstKey st t = (if t = TRBrace then close_step st t else key_step st t)"
| "parse_step MKey st t = key_step st t"
| "parse_step MColon st t = (if t = TColon then Some (MValue, st) else None)"
| "parse_step MNext st t = next_step st t"
| "parse_step (MEnd v) st t = None"

fun parse_tokens :: "mode \<Rightarrow> frame list \<Rightarrow> token list \<Rightarrow> json option" where
  "parse_tokens m st (t # ts) =
     (case parse_step m st t of
        None \<Rightarrow> None
      | Some (m', st') \<Rightarrow> parse_tokens m' st' ts)"
| "parse_tokens (MEnd v) st [] = Some v"
| "parse_tokens m st [] = None"

text \<open>A whole JSON text: one value with optional white space around it.\<close>

definition json_parse :: "string \<Rightarrow> json option" where
  "json_parse s =
     (case tokenize s of
        None \<Rightarrow> None
      | Some ts \<Rightarrow> parse_tokens MValue [] ts)"

subsection \<open>Package \<^verbatim>\<open>models\<close>: messages and content blocks\<close>

text \<open>
  Every struct is a record with the fields of the source; a field called \<^verbatim>\<open>Type\<close>,
  \<^verbatim>\<open>ID\<close>, \<^verbatim>\<open>Data\<close>, \<^verbatim>\<open>Content\<close> and the like carries the struct's name where two
  structs share it. The string types \<^verbatim>\<open>ContentType\<close>, \<^verbatim>\<open>Role\<close>, \<^verbatim>\<open>StopReason\<close> and
  \<^verbatim>\<open>EventType\<close> are strings. \<^verbatim>\<open>Input interface{}\<close> holds a decoded JSON value, with
  \<^const>\<open>JNull\<close> for the nil interface.
\<close>

record ImageSource =
  source_Type :: string
  MediaType :: string
  source_Data :: string
  URL :: string

record TextBlock =
  text_Type :: string
  Text :: string

record ImageBlock =
  image_Type :: string
  Source :: ImageSource

record ToolUseBlock =
  tool_use_Type :: string
  tool_use_ID :: string
  Name :: string
  Input :: json

record ToolResultBlock =
  tool_result_Type :: string
  ToolUseID :: string
  tool_result_Content :: string
  IsError :: bool

record ThinkingBlock =
  thinking_Type :: string
  Thinking :: string
  Signature :: string

record RedactedThinkingBlock =
  redacted_Type :: string
  redacted_Data :: string

text \<open>
  \<^verbatim>\<open>ContentBlock\<close> is a struct of six pointers. The assembler only ever stores blocks
  that one decoding of one event allocated, so no two stored blocks share a pointee and
  the pointers are modelled by the values they point to.
\<close>

record ContentBlock =
  TextContent :: "TextBlock option"
  ImageContent :: "ImageBlock option"
  ToolUseContent :: "ToolUseBlock option"
  ToolResultContent :: "ToolResultBlock option"
  ThinkingContent :: "ThinkingBlock option"
  RedactedThinkingContent :: "RedactedThinkingBlock option"

record Usage =
  InputTokens :: int
  OutputTokens :: int

record Message =
  ID :: string
  Role :: string
  Content :: "ContentBlock list"
  Model :: string
  StopReason :: string
  StopSequence :: string
  Usage :: Usage

definition TextContentType :: string where
  "TextContentType = ''text''"

definition ImageContentType :: string where
  "ImageContentType = ''image''"

definition ToolUseContentType :: string where
  "ToolUseContentType = ''tool_use''"

definition ToolResultContentType :: string where
  "ToolResultContentType = ''tool_result''"

definition ThinkingContentType :: string where
  "ThinkingContentType = ''thinking''"

definition RedactedThinkingContentType :: string where
  "RedactedThinkingContentType = ''redacted_thinking''"

text \<open>The zero values \<^verbatim>\<open>models.ContentBlock{}\<close>, \<^verbatim>\<open>models.Usage{}\<close>, \<^verbatim>\<open>models.Message{}\<close>.\<close>

definition empty_block :: ContentBlock where
  "empty_block =
     \<lparr>TextContent = None, ImageContent = None, ToolUseContent = None,
      ToolResultContent = None, ThinkingContent = None, RedactedThinkingContent = None\<rparr>"

definition zero_Usage :: Usage where
  "zero_Usage = \<lparr>InputTokens = 0, OutputTokens = 0\<rparr>"

definition zero_Message :: Message where
  "zero_Message =
     \<lparr>ID = [], Role = [], Content = [], Model = [], StopReason = [], StopSequence = [],
      Usage = zero_Usage\<rparr>"

subsection \<open>Package \<^verbatim>\<open>streaming\<close>: events and the stream\<close>

definition MessageStartEvent :: string where
  "MessageStartEvent = ''message_start''"

definition ContentBlockStartEvent :: string where
  "ContentBlockStartEvent = ''content_block_start''"

definition ContentBlockDeltaEvent :: string where
  "ContentBlockDeltaEvent = ''content_block_delta''"

definition ContentBlockStopEvent :: string where
  "ContentBlockStopEvent = ''content_block_stop''"

definition MessageDeltaEvent :: string where
  "MessageDeltaEvent = ''message_delta''"

definition MessageStopEvent :: string where
  "MessageStopEvent = ''message_stop''"

record Delta =
  delta_Type :: string
  delta_Text :: string
  PartialJSON :: string
  delta_Thinking :: string
  delta_Signature :: string

record Event =
  event_Type :: string
  event_Message :: "Message option"
  event_StopReason :: "string option"
  Index :: "int option"
  event_ContentBlock :: "ContentBlock option"
  event_Delta :: "Delta option"
  event_Usage :: "Usage option"

text \<open>
  The byte stream under the \<^verbatim>\<open>bufio.Reader\<close>: the bytes still to come, finitely
  many, and whether the source, once they are used up, reports a read failure instead of
  the end of input.
\<close>

record Reader =
  pending :: string
  broken :: bool

datatype read_error = EOF | ReadFailure

text \<open>
  The two errors \<^verbatim>\<open>Next\<close> records: \<^verbatim>\<open>"error reading stream: ..."\<close> (the spec's
  TransportError) and \<^verbatim>\<open>"error parsing event: ..."\<close> (the spec's DecodeError).
\<close>

datatype stream_error = ErrReadingStream | ErrParsingEvent

record MessageStream =
  reader :: Reader
  currentEvent :: "Event option"
  err :: "stream_error option"
  message :: Message
  jsonBuffers :: "int \<rightharpoonup> string"

text \<open>An index expression outside the slice makes the Go runtime panic.\<close>

datatype go_panic = IndexOutOfRange int nat

definition NewMessageStream :: "Reader \<Rightarrow> MessageStream" where
  "NewMessageStream r =
     \<lparr>reader = r, currentEvent = None, err = None, message = zero_Message,
      jsonBuffers = Map.empty\<rparr>"

definition Current :: "MessageStream \<Rightarrow> Event option" where
  "Current s = currentEvent s"

definition Err :: "MessageStream \<Rightarrow> stream_error option" where
  "Err s = err s"

definition Message :: "MessageStream \<Rightarrow> Message" where
  "Message s = message s"

subsection \<open>\<^verbatim>\<open>updateMessage\<close>\<close>

definition HasPrefix :: "string \<Rightarrow> string \<Rightarrow> bool" where
  "HasPrefix s p \<longleftrightarrow> length p \<le> length s \<and> take (length p) s = p"

definition HasSuffix :: "string \<Rightarrow> string \<Rightarrow> bool" where
  "HasSuffix s p \<longleftrightarrow> length p \<le> length s \<and> drop (length s - length p) s = p"

text \<open>
  \<^verbatim>\<open>json.Unmarshal\<close> into a \<^verbatim>\<open>map[string]interface{}\<close>: an object decodes to the
  map, \<^verbatim>\<open>null\<close> leaves the nil map, any other value is a type error.
\<close>

definition unmarshal_map :: "string \<Rightarrow> json option" where
  "unmarshal_map s =
     (case json_parse s of
        Some (JObject kvs) \<Rightarrow> Some (JObject kvs)
      | Some JNull \<Rightarrow> Some JNull
      | _ \<Rightarrow> None)"

text \<open>
  The parse attempt on a JSON buffer, shared by the delta and stop cases: the brace test
  on the raw buffer, then \<^verbatim>\<open>json.Unmarshal\<close>.
\<close>

definition parse_buffer :: "string \<Rightarrow> json option" where
  "parse_buffer jsonStr =
     (if HasPrefix jsonStr ''{'' \<and> HasSuffix jsonStr ''}'' then unmarshal_map jsonStr
      else None)"

text \<open>A missing key of a Go map reads as the zero value.\<close>

definition buffer_at :: "(int \<rightharpoonup> string) \<Rightarrow> int \<Rightarrow> string" where
  "buffer_at m i = (case m i of None \<Rightarrow> [] | Some b \<Rightarrow> b)"

text \<open>The loop \<^verbatim>\<open>for len(s.message.Content) <= idx { append ... }\<close>.\<close>

function grow_content :: "ContentBlock list \<Rightarrow> int \<Rightarrow> ContentBlock list" where
  "grow_content cs idx =
     (if int (length cs) \<le> idx then grow_content (cs @ [empty_block]) idx else cs)"
  by pat_completeness auto
termination
  by (relation "measure (\<lambda>(cs, idx). nat (idx + 1 - int (length cs)))") auto

declare grow_content.simps [simp del]

text \<open>\<^verbatim>\<open>s.message.Content[idx]\<close> as an expression, with the runtime's bounds check.\<close>

definition index_block :: "ContentBlock list \<Rightarrow> int \<Rightarrow> go_panic + ContentBlock" where
  "index_block cs idx =
     (if 0 \<le> idx \<and> idx < int (length cs) then Inr (cs ! nat idx)
      else Inl (IndexOutOfRange idx (length cs)))"

definition set_block :: "MessageStream \<Rightarrow> int \<Rightarrow> ContentBlock \<Rightarrow> MessageStream" where
  "set_block s idx b =
     s\<lparr>message := (message s)\<lparr>Content := (Content (message s))[nat idx := b]\<rparr>\<rparr>"

definition on_message_start :: "Event \<Rightarrow> MessageStream \<Rightarrow> go_panic + MessageStream" where
  "on_message_start event s =
     (case event_Message event of
        None \<Rightarrow> Inr s
      | Some m \<Rightarrow> Inr (s\<lparr>message := (message s)\<lparr>ID := ID m, Role := Role m, Model := Model m\<rparr>\<rparr>))"

definition on_block_start :: "Event \<Rightarrow> MessageStream \<Rightarrow> go_panic + MessageStream" where
  "on_block_start event s =
     (case (event_ContentBlock event, Index event) of
        (Some cb, Some idx) \<Rightarrow>
          (let content = grow_content (Content (message s)) idx in
           if idx < 0 then Inl (IndexOutOfRange idx (length content))
           else
             Inr (s\<lparr>message := (message s)\<lparr>Content := content[nat idx := cb]\<rparr>,
                    jsonBuffers :=
                      (if ToolUseContent cb \<noteq> None then (jsonBuffers s)(idx \<mapsto> [])
                       else jsonBuffers s)\<rparr>))
      | _ \<Rightarrow> Inr s)"

definition on_text_delta :: "Delta \<Rightarrow> int \<Rightarrow> MessageStream \<Rightarrow> go_panic + MessageStream" where
  "on_text_delta delta idx s =
     (case index_block (Content (message s)) idx of
        Inl p \<Rightarrow> Inl p
      | Inr b \<Rightarrow>
          (case TextContent b of
             None \<Rightarrow> Inr s
           | Some t \<Rightarrow>
               Inr (set_block s idx (b\<lparr>TextContent := Some (t\<lparr>Text := Text t @ delta_Text delta\<rparr>)\<rparr>))))"

definition on_input_json_delta :: "Delta \<Rightarrow> int \<Rightarrow> MessageStream \<Rightarrow> go_panic + MessageStream" where
  "on_input_json_delta delta idx s =
     (case index_block (Content (message s)) idx of
        Inl p \<Rightarrow> Inl p
      | Inr b \<Rightarrow>
          (case ToolUseContent b of
             None \<Rightarrow> Inr s
           | Some tu \<Rightarrow>
               (let jsonStr = buffer_at (jsonBuffers s) idx @ PartialJSON delta;
                    s1 = s\<lparr>jsonBuffers := (jsonBuffers s)(idx \<mapsto> jsonStr)\<rparr>
                in case parse_buffer jsonStr of
                     None \<Rightarrow> Inr s1
                   | Some inputObj \<Rightarrow>
                       Inr (set_block s1 idx (b\<lparr>ToolUseContent := Some (tu\<lparr>Input := inputObj\<rparr>)\<rparr>)))))"

definition on_thinking_delta :: "Delta \<Rightarrow> int \<Rightarrow> MessageStream \<Rightarrow> go_panic + MessageStream" where
  "on_thinking_delta delta idx s =
     (case index_block (Content (message s)) idx of
        Inl p \<Rightarrow> Inl p
      | Inr b \<Rightarrow>
          (case ThinkingContent b of
             None \<Rightarrow> Inr s
           | Some t \<Rightarrow>
               Inr (set_block s idx
                      (b\<lparr>ThinkingContent := Some (t\<lparr>Thinking := Thinking t @ delta_Thinking delta\<rparr>)\<rparr>))))"

definition on_signature_delta :: "Delta \<Rightarrow> int \<Rightarrow> MessageStream \<Rightarrow> go_panic + MessageStream" where
  "on_signature_delta delta idx s =
     (case index_block (Content (message s)) idx of
        Inl p \<Rightarrow> Inl p
      | Inr b \<Rightarrow>
          (case ThinkingContent b of
             None \<Rightarrow> Inr s
           | Some t \<Rightarrow>
               Inr (set_block s idx
                      (b\<lparr>ThinkingContent := Some (t\<lparr>Signature := delta_Signature delta\<rparr>)\<rparr>))))"

definition on_block_delta :: "Event \<Rightarrow> MessageStream \<Rightarrow> go_panic + MessageStream" where
  "on_block_delta event s =
     (case (event_Delta event, Index event) of
        (Some delta, Some idx) \<Rightarrow>
          if idx < int (length (Content (message s))) then
            if delta_Type delta = ''text_delta'' then on_text_delta delta idx s
            else if delta_Type delta = ''input_json_delta'' then on_input_json_delta delta idx s
            else if delta_Type delta = ''thinking_delta'' then on_thinking_delta delta idx s
            else if delta_Type delta = ''signature_delta'' then on_signature_delta delta idx s
            else Inr s
          else Inr s
      | _ \<Rightarrow> Inr s)"

definition on_block_stop :: "Event \<Rightarrow> MessageStream \<Rightarrow> go_panic + MessageStream" where
  "on_block_stop event s =
     (case Index event of
        None \<Rightarrow> Inr s
      | Some idx \<Rightarrow>
          if idx < int (length (Content (message s))) then
            (case index_block (Content (message s)) idx of
               Inl p \<Rightarrow> Inl p
             | Inr b \<Rightarrow>
                 (case ToolUseContent b of
                    None \<Rightarrow> Inr s
                  | Some tu \<Rightarrow>
                      (case parse_buffer (buffer_at (jsonBuffers s) idx) of
                         None \<Rightarrow> Inr s
                       | Some inputObj \<Rightarrow>
                           Inr (set_block s idx (b\<lparr>ToolUseContent := Some (tu\<lparr>Input := inputObj\<rparr>)\<rparr>)))))
          else Inr s)"

definition on_message_stop :: "Event \<Rightarrow> MessageStream \<Rightarrow> go_panic + MessageStream" where
  "on_message_stop event s =
     (let s1 = (case event_StopReason event of
                  None \<Rightarrow> s
                | Some r \<Rightarrow> s\<lparr>message := (message s)\<lparr>StopReason := r\<rparr>\<rparr>)
      in case event_Usage event of
           None \<Rightarrow> Inr s1
         | Some u \<Rightarrow> Inr (s1\<lparr>message := (message s1)\<lparr>Usage := u\<rparr>\<rparr>))"

text \<open>
  The \<^verbatim>\<open>switch event.Type\<close> of \<^verbatim>\<open>updateMessage\<close>, one function per case above
  (the start case of the source also holds an \<^verbatim>\<open>if\<close> with an empty body, which has
  no counterpart here). The result is \<^const>\<open>Inl\<close> where the Go code panics on its
  index expression, which it does for a negative index.
\<close>

definition updateMessage :: "Event \<Rightarrow> MessageStream \<Rightarrow> go_panic + MessageStream" where
  "updateMessage event s =
     (if event_Type event = MessageStartEvent then on_message_start event s
      else if event_Type event = ContentBlockStartEvent then on_block_start event s
      else if event_Type event = ContentBlockDeltaEvent then on_block_delta event s
      else if event_Type event = ContentBlockStopEvent then on_block_stop event s
      else if event_Type event = MessageStopEvent then on_message_stop event s
      else Inr s)"

text \<open>
  Successive calls of \<^verbatim>\<open>updateMessage\<close>, one per event, as successive calls of
  \<^verbatim>\<open>Next\<close> make them; a panic ends the run.
\<close>

fun updateMessages :: "Event list \<Rightarrow> MessageStream \<Rightarrow> go_panic + MessageStream" where
  "updateMessages [] s = Inr s"
| "updateMessages (event # events) s =
     (case updateMessage event s of
        Inl p \<Rightarrow> Inl p
      | Inr s' \<Rightarrow> updateMessages events s')"

subsection \<open>Decoding an event: \<^verbatim>\<open>json.Unmarshal(data, &event)\<close>\<close>

text \<open>
  \<^verbatim>\<open>encoding/json\<close> decodes an object into a struct member by member, in document
  order: a key selects the field whose \<^verbatim>\<open>json\<close> tag it equals up to case (with the two
  non-ASCII letters that fold to \<^verbatim>\<open>S\<close> and \<^verbatim>\<open>K\<close>), a key that selects no field is
  skipped, \<^verbatim>\<open>null\<close> leaves a non-pointer field as it is and sets a pointer to nil, and
  a value of the wrong JSON type is an error. \<^const>\<open>None\<close> stands for any error: the
  caller only tests \<^verbatim>\<open>err != nil\<close>.
\<close>

fun fold_name :: "string \<Rightarrow> string" where
  "fold_name [] = []"
| "fold_name (c # cs) =
     (if (97::nat) \<le> of_char c \<and> of_char c \<le> (122::nat) then
        char_of (of_char c - (32::nat)) # fold_name cs
      else if c = CHR 0xC5 \<and> take 1 cs = [CHR 0xBF] then CHR ''S'' # fold_name (drop 1 cs)
      else if c = CHR 0xE2 \<and> take 2 cs = [CHR 0x84, CHR 0xAA] then CHR ''K'' # fold_name (drop 2 cs)
      else c # fold_name cs)"

definition key_is :: "string \<Rightarrow> string \<Rightarrow> bool" where
  "key_is tag key \<longleftrightarrow> fold_name key = fold_name tag"

fun decode_members ::
  "(string \<Rightarrow> json \<Rightarrow> 'a \<Rightarrow> 'a option) \<Rightarrow> (string \<times> json) list \<Rightarrow> 'a \<Rightarrow> 'a option" where
  "decode_members field [] x = Some x"
| "decode_members field ((k, v) # kvs) x =
     (case field k v x of
        None \<Rightarrow> None
      | Some x' \<Rightarrow> decode_members field kvs x')"

definition decode_struct ::
  "(string \<Rightarrow> json \<Rightarrow> 'a \<Rightarrow> 'a option) \<Rightarrow> json \<Rightarrow> 'a \<Rightarrow> 'a option" where
  "decode_struct field j x =
     (case j of
        JObject kvs \<Rightarrow> decode_members field kvs x
      | JNull \<Rightarrow> Some x
      | _ \<Rightarrow> None)"

definition decode_pointer :: "(json \<Rightarrow> 'a \<Rightarrow> 'a option) \<Rightarrow> 'a \<Rightarrow> json \<Rightarrow> 'a option \<Rightarrow> 'a option option" where
  "decode_pointer dec zero j p =
     (case j of
        JNull \<Rightarrow> Some None
      | _ \<Rightarrow> map_option Some (dec j (case p of None \<Rightarrow> zero | Some x \<Rightarrow> x)))"

definition decode_string :: "json \<Rightarrow> string \<Rightarrow> string option" where
  "decode_string j x =
     (case j of
        JString s \<Rightarrow> Some s
      | JNull \<Rightarrow> Some x
      | _ \<Rightarrow> None)"

definition decode_bool :: "json \<Rightarrow> bool \<Rightarrow> bool option" where
  "decode_bool j x =
     (case j of
        JBool b \<Rightarrow> Some b
      | JNull \<Rightarrow> Some x
      | _ \<Rightarrow> None)"

text \<open>
  A number literal decodes into an \<^verbatim>\<open>int\<close> field when \<^verbatim>\<open>strconv.ParseInt\<close> accepts it:
  an optional minus sign and digits only, within 64 bits.
\<close>

definition digits_value :: "string \<Rightarrow> int" where
  "digits_value ds = foldl (\<lambda>n c. 10 * n + (int (of_char c) - 48)) 0 ds"

definition int_of_literal :: "string \<Rightarrow> int option" where
  "int_of_literal lit =
     (let negative = (take 1 lit = ''-'');
          ds = (if negative then drop 1 lit else lit);
          n = (if negative then - digits_value ds else digits_value ds)
      in if ds \<noteq> [] \<and> list_all is_digit ds \<and> - (2 ^ 63) \<le> n \<and> n < 2 ^ 63 then Some n
         else None)"

definition decode_int :: "json \<Rightarrow> int \<Rightarrow> int option" where
  "decode_int j x =
     (case j of
        JNumber lit \<Rightarrow> int_of_literal lit
      | JNull \<Rightarrow> Some x
      | _ \<Rightarrow> None)"

definition Usage_field :: "string \<Rightarrow> json \<Rightarrow> Usage \<Rightarrow> Usage option" where
  "Usage_field k v u =
     (if key_is ''input_tokens'' k then
        map_option (\<lambda>n. u\<lparr>InputTokens := n\<rparr>) (decode_int v (InputTokens u))
      else if key_is ''output_tokens'' k then
        map_option (\<lambda>n. u\<lparr>OutputTokens := n\<rparr>) (decode_int v (OutputTokens u))
      else Some u)"

definition ImageSource_field :: "string \<Rightarrow> json \<Rightarrow> ImageSource \<Rightarrow> ImageSource option" where
  "ImageSource_field k v x =
     (if key_is ''type'' k then
        map_option (\<lambda>s. x\<lparr>source_Type := s\<rparr>) (decode_string v (source_Type x))
      else if key_is ''media_type'' k then
        map_option (\<lambda>s. x\<lparr>MediaType := s\<rparr>) (decode_string v (MediaType x))
      else if key_is ''data'' k then
        map_option (\<lambda>s. x\<lparr>source_Data := s\<rparr>) (decode_string v (source_Data x))
      else if key_is ''url'' k then
        map_option (\<lambda>s. x\<lparr>URL := s\<rparr>) (decode_string v (URL x))
      else Some x)"

definition TextBlock_field :: "string \<Rightarrow> json \<Rightarrow> TextBlock \<Rightarrow> TextBlock option" where
  "TextBlock_field k v x =
     (if key_is ''type'' k then
        map_option (\<lambda>s. x\<lparr>text_Type := s\<rparr>) (decode_string v (text_Type x))
      else if key_is ''text'' k then
        map_option (\<lambda>s. x\<lparr>Text := s\<rparr>) (decode_string v (Text x))
      else Some x)"

definition ImageBlock_field :: "string \<Rightarrow> json \<Rightarrow> ImageBlock \<Rightarrow> ImageBlock option" where
  "ImageBlock_field k v x =
     (if key_is ''type'' k then
        map_option (\<lambda>s. x\<lparr>image_Type := s\<rparr>) (decode_string v (image_Type x))
      else if key_is ''source'' k then
        map_option (\<lambda>s. x\<lparr>Source := s\<rparr>) (decode_struct ImageSource_field v (Source x))
      else Some x)"

definition ToolUseBlock_field :: "string \<Rightarrow> json \<Rightarrow> ToolUseBlock \<Rightarrow> ToolUseBlock option" where
  "ToolUseBlock_field k v x =
     (if key_is ''type'' k then
        map_option (\<lambda>s. x\<lparr>tool_use_Type := s\<rparr>) (decode_string v (tool_use_Type x))
      else if key_is ''id'' k then
        map_option (\<lambda>s. x\<lparr>tool_use_ID := s\<rparr>) (decode_string v (tool_use_ID x))
      else if key_is ''name'' k then
        map_option (\<lambda>s. x\<lparr>Name := s\<rparr>) (decode_string v (Name x))
      else if key_is ''input'' k then Some (x\<lparr>Input := v\<rparr>)
      else Some x)"

definition ToolResultBlock_field ::
  "string \<Rightarrow> json \<Rightarrow> ToolResultBlock \<Rightarrow> ToolResultBlock option" where
  "ToolResultBlock_field k v x =
     (if key_is ''type'' k then
        map_option (\<lambda>s. x\<lparr>tool_result_Type := s\<rparr>) (decode_string v (tool_result_Type x))
      else if key_is ''tool_use_id'' k then
        map_option (\<lambda>s. x\<lparr>ToolUseID := s\<rparr>) (decode_string v (ToolUseID x))
      else if key_is ''content'' k then
        map_option (\<lambda>s. x\<lparr>tool_result_Content := s\<rparr>) (decode_string v (tool_result_Content x))
      else if key_is ''is_error'' k then
        map_option (\<lambda>b. x\<lparr>IsError := b\<rparr>) (decode_bool v (IsError x))
      else Some x)"

definition ThinkingBlock_field :: "string \<Rightarrow> json \<Rightarrow> ThinkingBlock \<Rightarrow> ThinkingBlock option" where
  "ThinkingBlock_field k v x =
     (if key_is ''type'' k then
        map_option (\<lambda>s. x\<lparr>thinking_Type := s\<rparr>) (decode_string v (thinking_Type x))
      else if key_is ''thinking'' k then
        map_option (\<lambda>s. x\<lparr>Thinking := s\<rparr>) (decode_string v (Thinking x))
      else if key_is ''signature'' k then
        map_option (\<lambda>s. x\<lparr>Signature := s\<rparr>) (decode_string v (Signature x))
      else Some x)"

definition RedactedThinkingBlock_field ::
  "string \<Rightarrow> json \<Rightarrow> RedactedThinkingBlock \<Rightarrow> RedactedThinkingBlock option" where
  "RedactedThinkingBlock_field k v x =
     (if key_is ''type'' k then
        map_option (\<lambda>s. x\<lparr>redacted_Type := s\<rparr>) (decode_string v (redacted_Type x))
      else if key_is ''data'' k then
        map_option (\<lambda>s. x\<lparr>redacted_Data := s\<rparr>) (decode_string v (redacted_Data x))
      else Some x)"

text \<open>
  \<^verbatim>\<open>ContentBlock.UnmarshalJSON\<close>: the first decoding reads the \<^verbatim>\<open>type\<close> member only,
  the second decodes the same text into a fresh block of that type and stores it in its
  field of the receiver; an unknown type stores nothing and is no error.
\<close>

definition typeCheck_field :: "string \<Rightarrow> json \<Rightarrow> string \<Rightarrow> string option" where
  "typeCheck_field k v x = (if key_is ''type'' k then decode_string v x else Some x)"

definition UnmarshalJSON :: "json \<Rightarrow> ContentBlock \<Rightarrow> ContentBlock option" where
  "UnmarshalJSON data c =
     (case decode_struct typeCheck_field data [] of
        None \<Rightarrow> None
      | Some typ \<Rightarrow>
          if typ = TextContentType then
            map_option (\<lambda>b. c\<lparr>TextContent := Some b\<rparr>)
              (decode_struct TextBlock_field data \<lparr>text_Type = [], Text = []\<rparr>)
          else if typ = ImageContentType then
            map_option (\<lambda>b. c\<lparr>ImageContent := Some b\<rparr>)
              (decode_struct ImageBlock_field data
                 \<lparr>image_Type = [],
                  Source = \<lparr>source_Type = [], MediaType = [], source_Data = [], URL = []\<rparr>\<rparr>)
          else if typ = ToolUseContentType then
            map_option (\<lambda>b. c\<lparr>ToolUseContent := Some b\<rparr>)
              (decode_struct ToolUseBlock_field data
                 \<lparr>tool_use_Type = [], tool_use_ID = [], Name = [], Input = JNull\<rparr>)
          else if typ = ToolResultContentType then
            map_option (\<lambda>b. c\<lparr>ToolResultContent := Some b\<rparr>)
              (decode_struct ToolResultBlock_field data
                 \<lparr>tool_result_Type = [], ToolUseID = [], tool_result_Content = [],
                  IsError = False\<rparr>)
          else if typ = ThinkingContentType then
            map_option (\<lambda>b. c\<lparr>ThinkingContent := Some b\<rparr>)
              (decode_struct ThinkingBlock_field data
                 \<lparr>thinking_Type = [], Thinking = [], Signature = []\<rparr>)
          else if typ = RedactedThinkingContentType then
            map_option (\<lambda>b. c\<lparr>RedactedThinkingContent := Some b\<rparr>)
              (decode_struct RedactedThinkingBlock_field data
                 \<lparr>redacted_Type = [], redacted_Data = []\<rparr>)
          else Some c)"

text \<open>
  A \<^verbatim>\<open>[]ContentBlock\<close>: every element of the array goes through \<^verbatim>\<open>UnmarshalJSON\<close>,
  here always on a fresh block. (When a message repeats its \<^verbatim>\<open>content\<close> key, Go may
  decode the second array into the elements of the first; \<^verbatim>\<open>updateMessage\<close> never
  reads this slice.)
\<close>

fun decode_blocks :: "json list \<Rightarrow> ContentBlock list option" where
  "decode_blocks [] = Some []"
| "decode_blocks (v # vs) =
     (case UnmarshalJSON v empty_block of
        None \<Rightarrow> None
      | Some b \<Rightarrow> map_option ((#) b) (decode_blocks vs))"

definition decode_Content :: "json \<Rightarrow> ContentBlock list \<Rightarrow> ContentBlock list option" where
  "decode_Content j x =
     (case j of
        JArray vs \<Rightarrow> decode_blocks vs
      | JNull \<Rightarrow> Some []
      | _ \<Rightarrow> None)"

definition Message_field :: "string \<Rightarrow> json \<Rightarrow> Message \<Rightarrow> Message option" where
  "Message_field k v m =
     (if key_is ''id'' k then map_option (\<lambda>s. m\<lparr>ID := s\<rparr>) (decode_string v (ID m))
      else if key_is ''role'' k then map_option (\<lambda>s. m\<lparr>Role := s\<rparr>) (decode_string v (Role m))
      else if key_is ''content'' k then
        map_option (\<lambda>bs. m\<lparr>Content := bs\<rparr>) (decode_Content v (Content m))
      else if key_is ''model'' k then map_option (\<lambda>s. m\<lparr>Model := s\<rparr>) (decode_string v (Model m))
      else if key_is ''stop_reason'' k then
        map_option (\<lambda>s. m\<lparr>StopReason := s\<rparr>) (decode_string v (StopReason m))
      else if key_is ''stop_sequence'' k then
        map_option (\<lambda>s. m\<lparr>StopSequence := s\<rparr>) (decode_string v (StopSequence m))
      else if key_is ''usage'' k then
        map_option (\<lambda>u. m\<lparr>Usage := u\<rparr>) (decode_struct Usage_field v (Usage m))
      else Some m)"

definition Delta_field :: "string \<Rightarrow> json \<Rightarrow> Delta \<Rightarrow> Delta option" where
  "Delta_field k v d =
     (if key_is ''type'' k then
        map_option (\<lambda>s. d\<lparr>delta_Type := s\<rparr>) (decode_string v (delta_Type d))
      else if key_is ''text'' k then
        map_option (\<lambda>s. d\<lparr>delta_Text := s\<rparr>) (decode_string v (delta_Text d))
      else if key_is ''partial_json'' k then
        map_option (\<lambda>s. d\<lparr>PartialJSON := s\<rparr>) (decode_string v (PartialJSON d))
      else if key_is ''thinking'' k then
        map_option (\<lambda>s. d\<lparr>delta_Thinking := s\<rparr>) (decode_string v (delta_Thinking d))
      else if key_is ''signature'' k then
        map_option (\<lambda>s. d\<lparr>delta_Signature := s\<rparr>) (decode_string v (delta_Signature d))
      else Some d)"

definition zero_Delta :: Delta where
  "zero_Delta =
     \<lparr>delta_Type = [], delta_Text = [], PartialJSON = [], delta_Thinking = [],
      delta_Signature = []\<rparr>"

definition zero_Event :: Event where
  "zero_Event =
     \<lparr>event_Type = [], event_Message = None, event_StopReason = None, Index = None,
      event_ContentBlock = None, event_Delta = None, event_Usage = None\<rparr>"

definition Event_field :: "string \<Rightarrow> json \<Rightarrow> Event \<Rightarrow> Event option" where
  "Event_field k v e =
     (if key_is ''type'' k then
        map_option (\<lambda>s. e\<lparr>event_Type := s\<rparr>) (decode_string v (event_Type e))
      else if key_is ''message'' k then
        map_option (\<lambda>p. e\<lparr>event_Message := p\<rparr>)
          (decode_pointer (decode_struct Message_field) zero_Message v (event_Message e))
      else if key_is ''stop_reason'' k then
        map_option (\<lambda>p. e\<lparr>event_StopReason := p\<rparr>)
          (decode_pointer decode_string [] v (event_StopReason e))
      else if key_is ''index'' k then
        map_option (\<lambda>p. e\<lparr>Index := p\<rparr>) (decode_pointer decode_int 0 v (Index e))
      else if key_is ''content_block'' k then
        map_option (\<lambda>p. e\<lparr>event_ContentBlock := p\<rparr>)
          (decode_pointer UnmarshalJSON empty_block v (event_ContentBlock e))
      else if key_is ''delta'' k then
        map_option (\<lambda>p. e\<lparr>event_Delta := p\<rparr>)
          (decode_pointer (decode_struct Delta_field) zero_Delta v (event_Delta e))
      else if key_is ''usage'' k then
        map_option (\<lambda>p. e\<lparr>event_Usage := p\<rparr>)
          (decode_pointer (decode_struct Usage_field) zero_Usage v (event_Usage e))
      else Some e)"

text \<open>\<^verbatim>\<open>var event Event; json.Unmarshal(data, &event)\<close>.\<close>

definition unmarshal_Event :: "string \<Rightarrow> Event option" where
  "unmarshal_Event data =
     (case json_parse data of
        None \<Rightarrow> None
      | Some j \<Rightarrow> decode_struct Event_field j zero_Event)"

subsection \<open>\<^verbatim>\<open>Next\<close>\<close>

text \<open>
  \<^verbatim>\<open>reader.ReadBytes('\n')\<close>: the bytes up to and including the first newline, or all
  the bytes left together with the error the source then reports.
\<close>

definition newline :: char where
  "newline = CHR 0x0A"

definition ReadBytes :: "Reader \<Rightarrow> (string \<times> read_error option) \<times> Reader" where
  "ReadBytes r =
     (case dropWhile (\<lambda>c. c \<noteq> newline) (pending r) of
        [] \<Rightarrow> ((pending r, Some (if broken r then ReadFailure else EOF)), r\<lparr>pending := []\<rparr>)
      | nl # rest \<Rightarrow>
          ((takeWhile (\<lambda>c. c \<noteq> newline) (pending r) @ [nl], None), r\<lparr>pending := rest\<rparr>))"

text \<open>
  \<^verbatim>\<open>bytes.TrimSpace\<close> removes the leading and trailing white space of Unicode; these
  are the UTF-8 encodings of the white space characters.
\<close>

definition space_encodings :: "string list" where
  "space_encodings =
     [[CHR 0x09], [CHR 0x0A], [CHR 0x0B], [CHR 0x0C], [CHR 0x0D], [CHR 0x20],
      [CHR 0xC2, CHR 0x85], [CHR 0xC2, CHR 0xA0], [CHR 0xE1, CHR 0x9A, CHR 0x80],
      [CHR 0xE2, CHR 0x80, CHR 0x80], [CHR 0xE2, CHR 0x80, CHR 0x81],
      [CHR 0xE2, CHR 0x80, CHR 0x82], [CHR 0xE2, CHR 0x80, CHR 0x83],
      [CHR 0xE2, CHR 0x80, CHR 0x84], [CHR 0xE2, CHR 0x80, CHR 0x85],
      [CHR 0xE2, CHR 0x80, CHR 0x86], [CHR 0xE2, CHR 0x80, CHR 0x87],
      [CHR 0xE2, CHR 0x80, CHR 0x88], [CHR 0xE2, CHR 0x80, CHR 0x89],
      [CHR 0xE2, CHR 0x80, CHR 0x8A], [CHR 0xE2, CHR 0x80, CHR 0xA8],
      [CHR 0xE2, CHR 0x80, CHR 0xA9], [CHR 0xE2, CHR 0x80, CHR 0xAF],
      [CHR 0xE2, CHR 0x81, CHR 0x9F], [CHR 0xE3, CHR 0x80, CHR 0x80]]"

function strip_leading :: "string list \<Rightarrow> string \<Rightarrow> string" where
  "strip_leading encs s =
     (case find (\<lambda>e. e \<noteq> [] \<and> HasPrefix s e) encs of
        None \<Rightarrow> s
      | Some e \<Rightarrow> strip_leading encs (drop (length e) s))"
  by pat_completeness auto
termination
proof (relation "measure (\<lambda>(encs, s). length s)")
  show "wf (measure (\<lambda>(encs, s). length s))" by simp
next
  fix encs :: "string list" and s e :: string
  assume "find (\<lambda>e. e \<noteq> [] \<and> HasPrefix s e) encs = Some e"
  then have "e \<noteq> []" and "length e \<le> length s"
    by (auto simp: find_Some_iff HasPrefix_def)
  then have "length (drop (length e) s) < length s"
    by (cases e) auto
  then show "((encs, drop (length e) s), (encs, s)) \<in> measure (\<lambda>(encs, s). length s)"
    by simp
qed

declare strip_leading.simps [simp del]

definition TrimSpace :: "string \<Rightarrow> string" where
  "TrimSpace s =
     rev (strip_leading (map rev space_encodings) (rev (strip_leading space_encodings s)))"

text \<open>
  \<^verbatim>\<open>Next\<close>. The result is \<^const>\<open>Inl\<close> where \<^verbatim>\<open>updateMessage\<close> panics, otherwise the
  boolean the method returns and the stream after the call. The method calls itself on
  a line it skips; every such call has consumed a line, so over a finite input it
  returns.
\<close>

function Next :: "MessageStream \<Rightarrow> go_panic + bool \<times> MessageStream" where
  "Next s =
     (if err s \<noteq> None then Inr (False, s)
      else
        (case ReadBytes (reader s) of
           ((line, Some e), r) \<Rightarrow>
             if e = EOF then Inr (False, s\<lparr>reader := r\<rparr>)
             else Inr (False, s\<lparr>reader := r, err := Some ErrReadingStream\<rparr>)
         | ((line, None), r) \<Rightarrow>
             if TrimSpace line = [] then Next (s\<lparr>reader := r\<rparr>)
             else if \<not> HasPrefix (TrimSpace line) ''data: '' then Next (s\<lparr>reader := r\<rparr>)
             else
               (case unmarshal_Event (drop (length ''data: '') (TrimSpace line)) of
                  None \<Rightarrow> Inr (False, s\<lparr>reader := r, err := Some ErrParsingEvent\<rparr>)
                | Some event \<Rightarrow>
                    (case updateMessage event (s\<lparr>reader := r, currentEvent := Some event\<rparr>) of
                       Inl p \<Rightarrow> Inl p
                     | Inr s' \<Rightarrow> Inr (True, s')))))"
  by pat_completeness auto

lemma ReadBytes_line_consumes:
  "ReadBytes r = ((line, None), r') \<Longrightarrow> length (pending r') < length (pending r)"
proof -
  assume a: "ReadBytes r = ((line, None), r')"
  then obtain nl where d: "dropWhile (\<lambda>c. c \<noteq> newline) (pending r) = nl # pending r'"
    by (auto simp: ReadBytes_def split: list.splits)
  have "length (dropWhile (\<lambda>c. c \<noteq> newline) (pending r)) \<le> length (pending r)"
    by (rule length_dropWhile_le)
  with d show ?thesis by simp
qed

termination Next
  by (relation "measure (\<lambda>s. length (pending (reader s)))")
     (auto dest: ReadBytes_line_consumes [OF sym])

declare Next.simps [simp del]

text \<open>
  \<^verbatim>\<open>updateMessage\<close> neither reads nor writes the reader: it commutes with any change
  of it.
\<close>

lemma set_block_reader: "set_block (s\<lparr>reader := r\<rparr>) idx b = (set_block s idx b)\<lparr>reader := r\<rparr>"
  by (simp add: set_block_def)

lemma on_message_start_reader:
  "on_message_start event (s\<lparr>reader := r\<rparr>) =
     map_sum id (\<lambda>s'. s'\<lparr>reader := r\<rparr>) (on_message_start event s)"
  by (simp add: on_message_start_def split: option.splits)

lemma on_block_start_reader:
  "on_block_start event (s\<lparr>reader := r\<rparr>) =
     map_sum id (\<lambda>s'. s'\<lparr>reader := r\<rparr>) (on_block_start event s)"
  by (simp add: on_block_start_def Let_def split: option.splits)

lemma on_text_delta_reader:
  "on_text_delta d idx (s\<lparr>reader := r\<rparr>) =
     map_sum id (\<lambda>s'. s'\<lparr>reader := r\<rparr>) (on_text_delta d idx s)"
  by (simp add: on_text_delta_def set_block_reader split: sum.splits option.splits)

lemma on_thinking_delta_reader:
  "on_thinking_delta d idx (s\<lparr>reader := r\<rparr>) =
     map_sum id (\<lambda>s'. s'\<lparr>reader := r\<rparr>) (on_thinking_delta d idx s)"
  by (simp add: on_thinking_delta_def set_block_reader split: sum.splits option.splits)

lemma on_signature_delta_reader:
  "on_signature_delta d idx (s\<lparr>reader := r\<rparr>) =
     map_sum id (\<lambda>s'. s'\<lparr>reader := r\<rparr>) (on_signature_delta d idx s)"
  by (simp add: on_signature_delta_def set_block_reader split: sum.splits option.splits)

lemma on_input_json_delta_reader:
  "on_input_json_delta d idx (s\<lparr>reader := r\<rparr>) =
     map_sum id (\<lambda>s'. s'\<lparr>reader := r\<rparr>) (on_input_json_delta d idx s)"
  by (simp add: on_input_json_delta_def Let_def set_block_def split: sum.splits option.splits)

lemma on_block_delta_reader:
  "on_block_delta event (s\<lparr>reader := r\<rparr>) =
     map_sum id (\<lambda>s'. s'\<lparr>reader := r\<rparr>) (on_block_delta event s)"
  by (simp add: on_block_delta_def on_text_delta_reader on_thinking_delta_reader
      on_signature_delta_reader on_input_json_delta_reader split: option.splits)

lemma on_block_stop_reader:
  "on_block_stop event (s\<lparr>reader := r\<rparr>) =
     map_sum id (\<lambda>s'. s'\<lparr>reader := r\<rparr>) (on_block_stop event s)"
  by (simp add: on_block_stop_def set_block_reader split: sum.splits option.splits)

lemma on_message_stop_reader:
  "on_message_stop event (s\<lparr>reader := r\<rparr>) =
     map_sum id (\<lambda>s'. s'\<lparr>reader := r\<rparr>) (on_message_stop event s)"
  by (simp add: on_message_stop_def Let_def split: option.splits)

lemma updateMessage_reader:
  "updateMessage event (s\<lparr>reader := r\<rparr>) =
     map_sum id (\<lambda>s'. s'\<lparr>reader := r\<rparr>) (updateMessage event s)"
  by (simp add: updateMessage_def on_message_start_reader on_block_start_reader
      on_block_delta_reader on_block_stop_reader on_message_stop_reader)

lemma updateMessage_reader_current:
  "updateMessage event (s\<lparr>reader := r, currentEvent := c\<rparr>) =
     map_sum id (\<lambda>s'. s'\<lparr>reader := r\<rparr>) (updateMessage event (s\<lparr>currentEvent := c\<rparr>))"
proof -
  have "s\<lparr>reader := r, currentEvent := c\<rparr> = (s\<lparr>currentEvent := c\<rparr>)\<lparr>reader := r\<rparr>"
    by (rule MessageStream.equality) simp_all
  then show ?thesis
    by (simp only: updateMessage_reader)
qed

lemma updateMessage_keeps_reader:
  assumes "updateMessage event s = Inr s'"
  shows "reader s' = reader s"
proof -
  have "updateMessage event (s\<lparr>reader := reader s\<rparr>) = Inr (s'\<lparr>reader := reader s\<rparr>)"
    unfolding updateMessage_reader using assms by simp
  with assms have "s' = s'\<lparr>reader := reader s\<rparr>" by simp
  then have "reader s' = reader (s'\<lparr>reader := reader s\<rparr>)" by simp
  then show ?thesis by simp
qed

lemma Next_True_consumes:
  "Next s = Inr (True, s') \<Longrightarrow> length (pending (reader s')) < length (pending (reader s))"
proof (induction s rule: Next.induct)
  case (1 s)
  show ?case
  proof (cases "err s \<noteq> None")
    case True
    with "1.prems" show ?thesis by (simp add: Next.simps)
  next
    case False
    then have e: "err s = None" by simp
    obtain line eo r where rb: "ReadBytes (reader s) = ((line, eo), r)"
      by (metis surj_pair)
    show ?thesis
    proof (cases eo)
      case (Some x)
      with "1.prems" e rb show ?thesis
        by (simp add: Next.simps split: if_splits)
    next
      case None
      note shorter = ReadBytes_line_consumes [OF rb [unfolded None]]
      show ?thesis
      proof (cases "TrimSpace line = [] \<or> \<not> HasPrefix (TrimSpace line) ''data: ''")
        case True
        with "1.prems" e rb None have n: "Next (s\<lparr>reader := r\<rparr>) = Inr (True, s')"
          by (subst (asm) Next.simps) (auto split: if_splits)
        from True have "length (pending (reader s')) < length (pending (reader (s\<lparr>reader := r\<rparr>)))"
        proof
          assume t: "TrimSpace line = []"
          from "1.IH"(1) [OF False rb [symmetric, unfolded None] refl refl t n] show ?thesis .
        next
          assume t: "\<not> HasPrefix (TrimSpace line) ''data: ''"
          show ?thesis
          proof (cases "TrimSpace line = []")
            case True
            from "1.IH"(1) [OF False rb [symmetric, unfolded None] refl refl True n] show ?thesis .
          next
            case ne: False
            from "1.IH"(2) [OF False rb [symmetric, unfolded None] refl refl ne t n] show ?thesis .
          qed
        qed
        with shorter show ?thesis by simp
      next
        case False
        with "1.prems" e rb None obtain event where
          u: "updateMessage event (s\<lparr>reader := r, currentEvent := Some event\<rparr>) = Inr s'"
          by (subst (asm) Next.simps) (auto split: if_splits option.splits sum.splits)
        from updateMessage_keeps_reader [OF u] shorter show ?thesis by simp
      qed
    qed
  qed
qed

text \<open>
  The caller's loop \<^verbatim>\<open>for stream.Next() { ... }\<close>: iteration to exhaustion. Every call
  that returns true has consumed a line.
\<close>

function exhaust :: "MessageStream \<Rightarrow> go_panic + MessageStream" where
  "exhaust s =
     (case Next s of
        Inl p \<Rightarrow> Inl p
      | Inr (again, s') \<Rightarrow> if again then exhaust s' else Inr s')"
  by pat_completeness auto
termination
  by (relation "measure (\<lambda>s. length (pending (reader s)))")
     (auto dest: Next_True_consumes)

declare exhaust.simps [simp del]

text \<open>
  Notions for the statements about the decoder: a reader over newline-terminated lines,
  a stream with more bytes appended to its input, the message after iteration to
  exhaustion, what a call of \<^verbatim>\<open>Next\<close> lets the caller observe (the boolean, \<^verbatim>\<open>Err()\<close>
  and \<^verbatim>\<open>Message()\<close>), and the stream after a number of further calls.
\<close>

definition stream_lines :: "string list \<Rightarrow> Reader" where
  "stream_lines ls = \<lparr>pending = concat (map (\<lambda>l. l @ [newline]) ls), broken = False\<rparr>"

definition with_tail :: "string \<Rightarrow> MessageStream \<Rightarrow> MessageStream" where
  "with_tail tail s = s\<lparr>reader := (reader s)\<lparr>pending := pending (reader s) @ tail\<rparr>\<rparr>"

definition final_message :: "Reader \<Rightarrow> go_panic + Message" where
  "final_message r = map_sum id Message (exhaust (NewMessageStream r))"

definition outcome ::
  "go_panic + bool \<times> MessageStream \<Rightarrow> go_panic + bool \<times> stream_error option \<times> Message" where
  "outcome x = map_sum id (\<lambda>(again, s). (again, Err s, Message s)) x"

fun after_calls :: "nat \<Rightarrow> MessageStream \<Rightarrow> go_panic + MessageStream" where
  "after_calls 0 s = Inr s"
| "after_calls (Suc n) s =
     (case Next s of
        Inl p \<Rightarrow> Inl p
      | Inr (again, s') \<Rightarrow> after_calls n s')"

subsection \<open>Events and blocks for the statements below\<close>

definition start_event :: "int \<Rightarrow> ContentBlock \<Rightarrow> Event" where
  "start_event i cb =
     zero_Event\<lparr>event_Type := ContentBlockStartEvent, Index := Some i,
                event_ContentBlock := Some cb\<rparr>"

definition delta_event :: "int \<Rightarrow> Delta \<Rightarrow> Event" where
  "delta_event i d =
     zero_Event\<lparr>event_Type := ContentBlockDeltaEvent, Index := Some i, event_Delta := Some d\<rparr>"

definition stop_event :: "int \<Rightarrow> Event" where
  "stop_event i = zero_Event\<lparr>event_Type := ContentBlockStopEvent, Index := Some i\<rparr>"

definition text_delta :: "string \<Rightarrow> Delta" where
  "text_delta x = zero_Delta\<lparr>delta_Type := ''text_delta'', delta_Text := x\<rparr>"

definition input_json_delta :: "string \<Rightarrow> Delta" where
  "input_json_delta x = zero_Delta\<lparr>delta_Type := ''input_json_delta'', PartialJSON := x\<rparr>"

definition thinking_delta :: "string \<Rightarrow> Delta" where
  "thinking_delta x = zero_Delta\<lparr>delta_Type := ''thinking_delta'', delta_Thinking := x\<rparr>"

definition signature_delta :: "string \<Rightarrow> Delta" where
  "signature_delta x = zero_Delta\<lparr>delta_Type := ''signature_delta'', delta_Signature := x\<rparr>"

text \<open>\<^verbatim>\<open>models.CreateTextBlock\<close>, \<^verbatim>\<open>models.CreateToolUseBlock\<close>, and a thinking block.\<close>

definition CreateTextBlock :: "string \<Rightarrow> ContentBlock" where
  "CreateTextBlock text =
     empty_block\<lparr>TextContent := Some \<lparr>text_Type = TextContentType, Text = text\<rparr>\<rparr>"

definition CreateToolUseBlock :: "string \<Rightarrow> string \<Rightarrow> json \<Rightarrow> ContentBlock" where
  "CreateToolUseBlock ident name input =
     empty_block\<lparr>ToolUseContent :=
       Some \<lparr>tool_use_Type = ToolUseContentType, tool_use_ID = ident, Name = name,
             Input = input\<rparr>\<rparr>"

definition thinking_block :: "string \<Rightarrow> string \<Rightarrow> ContentBlock" where
  "thinking_block thinking signature =
     empty_block\<lparr>ThinkingContent :=
       Some \<lparr>thinking_Type = ThinkingContentType, Thinking = thinking, Signature = signature\<rparr>\<rparr>"

definition no_input :: Reader where
  "no_input = \<lparr>pending = [], broken = False\<rparr>"

text \<open>A stream whose accumulated message holds the given content blocks and nothing else.\<close>

definition with_content :: "ContentBlock list \<Rightarrow> MessageStream" where
  "with_content cs = (NewMessageStream no_input)\<lparr>message := zero_Message\<lparr>Content := cs\<rparr>\<rparr>"

text \<open>
  \<open>same_but i cs cs'\<close>: the content sequence \<open>cs'\<close> is \<open>cs\<close>, possibly with more
  blocks at its end, where every block but the one at index \<open>i\<close> is the block of \<open>cs\<close>
  or, beyond the length of \<open>cs\<close>, the empty block.
\<close>

definition same_but :: "int option \<Rightarrow> ContentBlock list \<Rightarrow> ContentBlock list \<Rightarrow> bool" where
  "same_but i cs cs' \<longleftrightarrow>
     length cs \<le> length cs' \<and>
     (\<forall>j < length cs'. i \<noteq> Some (int j) \<longrightarrow>
        cs' ! j = (if j < length cs then cs ! j else empty_block))"

text \<open>
  The block-level reading of \<^verbatim>\<open>updateMessage\<close>, used to state and prove what a run of
  events does to one index. \<open>starts_at i event\<close>: the event is a block start that stores
  a snapshot at index \<open>i\<close>. \<open>block_step event buf b\<close>: the block that an event other
  than such a start leaves at its own index, where \<open>b\<close> is the block and \<open>buf\<close> the JSON
  buffer of that index before the event. \<open>json_fragment event\<close>: what the event appends
  to the JSON buffer of a tool-use block at its index.
\<close>

definition starts_at :: "int \<Rightarrow> Event \<Rightarrow> bool" where
  "starts_at i event \<longleftrightarrow>
     event_Type event = ContentBlockStartEvent \<and> event_ContentBlock event \<noteq> None \<and>
     Index event = Some i"

definition append_text :: "string \<Rightarrow> ContentBlock \<Rightarrow> ContentBlock" where
  "append_text x b =
     (case TextContent b of
        None \<Rightarrow> b
      | Some t \<Rightarrow> b\<lparr>TextContent := Some (t\<lparr>Text := Text t @ x\<rparr>)\<rparr>)"

definition append_thinking :: "string \<Rightarrow> ContentBlock \<Rightarrow> ContentBlock" where
  "append_thinking x b =
     (case ThinkingContent b of
        None \<Rightarrow> b
      | Some t \<Rightarrow> b\<lparr>ThinkingContent := Some (t\<lparr>Thinking := Thinking t @ x\<rparr>)\<rparr>)"

definition replace_signature :: "string \<Rightarrow> ContentBlock \<Rightarrow> ContentBlock" where
  "replace_signature x b =
     (case ThinkingContent b of
        None \<Rightarrow> b
      | Some t \<Rightarrow> b\<lparr>ThinkingContent := Some (t\<lparr>Signature := x\<rparr>)\<rparr>)"

definition replace_input :: "json option \<Rightarrow> ContentBlock \<Rightarrow> ContentBlock" where
  "replace_input parsed b =
     (case (ToolUseContent b, parsed) of
        (Some tu, Some inputObj) \<Rightarrow> b\<lparr>ToolUseContent := Some (tu\<lparr>Input := inputObj\<rparr>)\<rparr>
      | _ \<Rightarrow> b)"

definition block_step :: "Event \<Rightarrow> string \<Rightarrow> ContentBlock \<Rightarrow> ContentBlock" where
  "block_step event buf b =
     (if event_Type event = ContentBlockDeltaEvent then
        (case event_Delta event of
           None \<Rightarrow> b
         | Some d \<Rightarrow>
             if delta_Type d = ''text_delta'' then append_text (delta_Text d) b
             else if delta_Type d = ''input_json_delta'' then
               replace_input (parse_buffer (buf @ PartialJSON d)) b
             else if delta_Type d = ''thinking_delta'' then append_thinking (delta_Thinking d) b
             else if delta_Type d = ''signature_delta'' then
               replace_signature (delta_Signature d) b
             else b)
      else if event_Type event = ContentBlockStopEvent then replace_input (parse_buffer buf) b
      else b)"

definition json_fragment :: "Event \<Rightarrow> string" where
  "json_fragment event =
     (if event_Type event = ContentBlockDeltaEvent then
        (case event_Delta event of
           None \<Rightarrow> []
         | Some d \<Rightarrow> if delta_Type d = ''input_json_delta'' then PartialJSON d else [])
      else [])"

text \<open>
  What the events of a run contribute to index \<open>i\<close>: the text fragments of its
  \<^verbatim>\<open>text_delta\<close> events, the JSON fragments of its \<^verbatim>\<open>input_json_delta\<close> events, and
  the signatures of its \<^verbatim>\<open>signature_delta\<close> events, each in event order.
\<close>

definition text_fragment :: "Event \<Rightarrow> string" where
  "text_fragment event =
     (if event_Type event = ContentBlockDeltaEvent then
        (case event_Delta event of
           None \<Rightarrow> []
         | Some d \<Rightarrow> if delta_Type d = ''text_delta'' then delta_Text d else [])
      else [])"

definition signature_of :: "Event \<Rightarrow> string option" where
  "signature_of event =
     (if event_Type event = ContentBlockDeltaEvent then
        (case event_Delta event of
           None \<Rightarrow> None
         | Some d \<Rightarrow> if delta_Type d = ''signature_delta'' then Some (delta_Signature d) else None)
      else None)"

definition events_at :: "int \<Rightarrow> Event list \<Rightarrow> Event list" where
  "events_at i events = filter (\<lambda>event. Index event = Some i) events"

definition text_fragments :: "int \<Rightarrow> Event list \<Rightarrow> string" where
  "text_fragments i events = concat (map text_fragment (events_at i events))"

definition json_fragments :: "int \<Rightarrow> Event list \<Rightarrow> string" where
  "json_fragments i events = concat (map json_fragment (events_at i events))"

definition signature_deltas :: "int \<Rightarrow> Event list \<Rightarrow> string list" where
  "signature_deltas i events = List.map_filter signature_of (events_at i events)"

text \<open>
  The structured input of the tool-use block at index \<open>i\<close> after a run of events
  (\<^const>\<open>None\<close> when the run panics or leaves no tool-use block there).
\<close>

definition input_after :: "int \<Rightarrow> Event list \<Rightarrow> MessageStream \<Rightarrow> json option" where
  "input_after i events s =
     (case updateMessages events s of
        Inl p \<Rightarrow> None
      | Inr s' \<Rightarrow>
          if 0 \<le> i \<and> i < int (length (Content (message s')))
          then map_option Input (ToolUseContent (Content (message s') ! nat i))
          else None)"

section \<open>Properties of the assembler\<close>

lemmas event_defs = zero_Event_def zero_Delta_def start_event_def delta_event_def stop_event_def
  text_delta_def input_json_delta_def thinking_delta_def signature_delta_def
  MessageStartEvent_def ContentBlockStartEvent_def ContentBlockDeltaEvent_def
  ContentBlockStopEvent_def MessageStopEvent_def MessageDeltaEvent_def

lemmas block_defs = empty_block_def CreateTextBlock_def CreateToolUseBlock_def thinking_block_def
  TextContentType_def ToolUseContentType_def ThinkingContentType_def

lemmas stream_defs = NewMessageStream_def with_content_def zero_Message_def zero_Usage_def
  no_input_def

subsection \<open>Growing the content sequence\<close>

lemma grow_content_replicate:
  "grow_content cs idx = cs @ replicate (nat (idx + 1) - length cs) empty_block"
proof (induction cs idx rule: grow_content.induct)
  case (1 cs idx)
  show ?case
  proof (cases "int (length cs) \<le> idx")
    case True
    then have "nat (idx + 1) - length cs = Suc (nat (idx + 1) - Suc (length cs))"
      by linarith
    with True "1.IH" show ?thesis
      by (subst grow_content.simps) (simp add: replicate_app_Cons_same)
  next
    case False
    then have "nat (idx + 1) - length cs = 0" by linarith
    with False show ?thesis
      by (subst grow_content.simps) simp
  qed
qed

lemma length_grow_content:
  "length (grow_content cs idx) = max (length cs) (nat (idx + 1))"
  by (simp add: grow_content_replicate)

lemma nth_grow_content:
  "j < length (grow_content cs idx) \<Longrightarrow>
   grow_content cs idx ! j = (if j < length cs then cs ! j else empty_block)"
  by (simp add: grow_content_replicate nth_append)

subsection \<open>What one event leaves alone\<close>

lemma content_set_block:
  "Content (message (set_block s idx b)) = (Content (message s))[nat idx := b]"
  by (simp add: set_block_def)

lemma index_block_Inr:
  "index_block cs idx = Inr b \<longleftrightarrow> 0 \<le> idx \<and> idx < int (length cs) \<and> b = cs ! nat idx"
  by (auto simp: index_block_def)

lemma same_but_refl: "same_but i cs cs"
  by (simp add: same_but_def)

lemma same_but_update: "0 \<le> idx \<Longrightarrow> same_but (Some idx) cs (cs[nat idx := b])"
  by (auto simp: same_but_def nth_list_update)

lemma on_text_delta_frame:
  "on_text_delta d idx s = Inr s' \<Longrightarrow>
   same_but (Some idx) (Content (message s)) (Content (message s'))"
  unfolding on_text_delta_def
  by (auto simp: content_set_block index_block_Inr same_but_refl same_but_update
      split: sum.splits option.splits)

lemma on_thinking_delta_frame:
  "on_thinking_delta d idx s = Inr s' \<Longrightarrow>
   same_but (Some idx) (Content (message s)) (Content (message s'))"
  unfolding on_thinking_delta_def
  by (auto simp: content_set_block index_block_Inr same_but_refl same_but_update
      split: sum.splits option.splits)

lemma on_signature_delta_frame:
  "on_signature_delta d idx s = Inr s' \<Longrightarrow>
   same_but (Some idx) (Content (message s)) (Content (message s'))"
  unfolding on_signature_delta_def
  by (auto simp: content_set_block index_block_Inr same_but_refl same_but_update
      split: sum.splits option.splits)

lemma on_input_json_delta_frame:
  "on_input_json_delta d idx s = Inr s' \<Longrightarrow>
   same_but (Some idx) (Content (message s)) (Content (message s'))"
  unfolding on_input_json_delta_def Let_def
  by (auto simp: content_set_block index_block_Inr same_but_refl same_but_update
      split: sum.splits option.splits)

lemma on_block_delta_frame:
  "on_block_delta event s = Inr s' \<Longrightarrow>
   same_but (Index event) (Content (message s)) (Content (message s'))"
  unfolding on_block_delta_def
  by (auto simp: same_but_refl split: option.splits if_splits
      dest: on_text_delta_frame on_thinking_delta_frame on_signature_delta_frame
        on_input_json_delta_frame)

lemma on_block_stop_frame:
  "on_block_stop event s = Inr s' \<Longrightarrow>
   same_but (Index event) (Content (message s)) (Content (message s'))"
  unfolding on_block_stop_def
  by (auto simp: content_set_block index_block_Inr same_but_refl same_but_update
      split: sum.splits option.splits if_splits)

lemma on_block_start_frame:
  "on_block_start event s = Inr s' \<Longrightarrow>
   same_but (Index event) (Content (message s)) (Content (message s'))"
  unfolding on_block_start_def Let_def
  by (auto simp: same_but_refl same_but_def length_grow_content nth_grow_content
      nth_list_update split: option.splits if_splits)

lemma on_message_start_frame:
  "on_message_start event s = Inr s' \<Longrightarrow> Content (message s') = Content (message s)"
  unfolding on_message_start_def
  by (auto split: option.splits)

lemma on_message_stop_frame:
  "on_message_stop event s = Inr s' \<Longrightarrow> Content (message s') = Content (message s)"
  unfolding on_message_stop_def Let_def
  by (auto split: option.splits)

lemma updateMessage_same_but:
  "updateMessage event s = Inr s' \<Longrightarrow>
   same_but (Index event) (Content (message s)) (Content (message s'))"
  unfolding updateMessage_def
  by (auto simp: same_but_refl split: if_splits
      dest: on_block_delta_frame on_block_stop_frame on_block_start_frame
        on_message_start_frame on_message_stop_frame)

subsection \<open>What one event does at its own index\<close>

lemma set_block_same:
  "0 \<le> idx \<Longrightarrow> idx < int (length (Content (message s))) \<Longrightarrow>
   set_block s idx (Content (message s) ! nat idx) = s"
  by (simp add: set_block_def)

lemma on_text_delta_result:
  assumes "on_text_delta d idx s = Inr s'"
  shows "s' = set_block s idx (append_text (delta_Text d) (Content (message s) ! nat idx))"
  using assms unfolding on_text_delta_def append_text_def
  by (auto simp: index_block_Inr set_block_same split: sum.splits option.splits)

lemma on_thinking_delta_result:
  assumes "on_thinking_delta d idx s = Inr s'"
  shows "s' = set_block s idx (append_thinking (delta_Thinking d) (Content (message s) ! nat idx))"
  using assms unfolding on_thinking_delta_def append_thinking_def
  by (auto simp: index_block_Inr set_block_same split: sum.splits option.splits)

lemma on_signature_delta_result:
  assumes "on_signature_delta d idx s = Inr s'"
  shows "s' = set_block s idx (replace_signature (delta_Signature d) (Content (message s) ! nat idx))"
  using assms unfolding on_signature_delta_def replace_signature_def
  by (auto simp: index_block_Inr set_block_same split: sum.splits option.splits)

lemma on_input_json_delta_result:
  assumes "on_input_json_delta d idx s = Inr s'"
  shows "Content (message s') =
      (Content (message s))[nat idx :=
         replace_input (parse_buffer (buffer_at (jsonBuffers s) idx @ PartialJSON d))
           (Content (message s) ! nat idx)]"
    and "jsonBuffers s' =
      (if ToolUseContent (Content (message s) ! nat idx) = None then jsonBuffers s
       else (jsonBuffers s)(idx \<mapsto> buffer_at (jsonBuffers s) idx @ PartialJSON d))"
  using assms unfolding on_input_json_delta_def replace_input_def Let_def
  by (auto simp: index_block_Inr set_block_def split: sum.splits option.splits)

lemma on_block_stop_result:
  assumes "on_block_stop event s = Inr s'" "Index event = Some idx"
  shows "Content (message s') =
      (Content (message s))[nat idx :=
         replace_input (parse_buffer (buffer_at (jsonBuffers s) idx))
           (Content (message s) ! nat idx)]"
    and "jsonBuffers s' = jsonBuffers s"
  using assms unfolding on_block_stop_def replace_input_def
  by (auto simp: index_block_Inr set_block_def list_update_beyond
      split: sum.splits option.splits if_splits)

lemma on_block_delta_own:
  assumes "on_block_delta event s = Inr s'" "Index event = Some idx"
    "event_Type event = ContentBlockDeltaEvent"
  shows "Content (message s') =
      (Content (message s))[nat idx :=
         block_step event (buffer_at (jsonBuffers s) idx) (Content (message s) ! nat idx)]"
proof (cases "event_Delta event")
  case None
  with assms show ?thesis
    by (simp add: on_block_delta_def block_step_def)
next
  case (Some d)
  show ?thesis
  proof (cases "idx < int (length (Content (message s)))")
    case False
    with assms Some show ?thesis
      by (simp add: on_block_delta_def list_update_beyond)
  next
    case True
    with assms Some show ?thesis
      by (auto simp: on_block_delta_def block_step_def content_set_block
          dest!: on_text_delta_result on_thinking_delta_result on_signature_delta_result
            on_input_json_delta_result(1)
          split: if_splits)
  qed
qed

lemma updateMessage_own_block:
  assumes "updateMessage event s = Inr s'" "Index event = Some idx" "\<not> starts_at idx event"
  shows "Content (message s') =
      (Content (message s))[nat idx :=
         block_step event (buffer_at (jsonBuffers s) idx) (Content (message s) ! nat idx)]"
proof -
  consider (ms) "event_Type event = MessageStartEvent"
    | (bs) "event_Type event = ContentBlockStartEvent"
    | (bd) "event_Type event = ContentBlockDeltaEvent"
    | (bp) "event_Type event = ContentBlockStopEvent"
    | (mp) "event_Type event = MessageStopEvent"
    | (other) "event_Type event \<notin> {MessageStartEvent, ContentBlockStartEvent,
        ContentBlockDeltaEvent, ContentBlockStopEvent, MessageStopEvent}"
    by auto
  then show ?thesis
  proof cases
    case ms
    with assms(1) have "Content (message s') = Content (message s)"
      by (auto simp: updateMessage_def dest: on_message_start_frame)
    with ms show ?thesis by (simp add: block_step_def event_defs)
  next
    case bs
    with assms have "s' = s"
      by (auto simp: updateMessage_def on_block_start_def starts_at_def event_defs
          split: option.splits)
    with bs show ?thesis by (simp add: block_step_def event_defs)
  next
    case bd
    with assms(1) have "on_block_delta event s = Inr s'"
      by (simp add: updateMessage_def event_defs)
    from on_block_delta_own [OF this assms(2) bd] show ?thesis .
  next
    case bp
    with assms(1) have "on_block_stop event s = Inr s'"
      by (simp add: updateMessage_def event_defs)
    from on_block_stop_result(1) [OF this assms(2)] bp show ?thesis
      by (simp add: block_step_def event_defs)
  next
    case mp
    with assms(1) have "Content (message s') = Content (message s)"
      by (auto simp: updateMessage_def event_defs dest: on_message_stop_frame)
    with mp show ?thesis by (simp add: block_step_def event_defs)
  next
    case other
    with assms(1) have "s' = s"
      by (simp add: updateMessage_def)
    with other show ?thesis by (simp add: block_step_def)
  qed
qed

lemma jsonBuffers_set_block: "jsonBuffers (set_block s idx b) = jsonBuffers s"
  by (simp add: set_block_def)

lemma on_block_delta_buffers:
  assumes "on_block_delta event s = Inr s'"
  shows "jsonBuffers s' =
     (case (event_Delta event, Index event) of
        (Some d, Some idx) \<Rightarrow>
          if idx < int (length (Content (message s))) \<and> delta_Type d = ''input_json_delta'' \<and>
             ToolUseContent (Content (message s) ! nat idx) \<noteq> None
          then (jsonBuffers s)(idx \<mapsto> buffer_at (jsonBuffers s) idx @ PartialJSON d)
          else jsonBuffers s
      | _ \<Rightarrow> jsonBuffers s)"
  using assms
  by (auto simp: on_block_delta_def jsonBuffers_set_block
      dest!: on_text_delta_result on_thinking_delta_result on_signature_delta_result
        on_input_json_delta_result(2)
      split: option.splits if_splits)

lemma on_block_start_buffers:
  assumes "on_block_start event s = Inr s'"
  shows "jsonBuffers s' =
     (case (event_ContentBlock event, Index event) of
        (Some cb, Some idx) \<Rightarrow>
          if ToolUseContent cb \<noteq> None then (jsonBuffers s)(idx \<mapsto> []) else jsonBuffers s
      | _ \<Rightarrow> jsonBuffers s)"
  using assms
  by (auto simp: on_block_start_def Let_def split: option.splits if_splits)

lemma on_block_stop_buffers:
  assumes "on_block_stop event s = Inr s'"
  shows "jsonBuffers s' = jsonBuffers s"
  using assms unfolding on_block_stop_def
  by (auto simp: jsonBuffers_set_block split: sum.splits option.splits if_splits)

lemma on_message_start_buffers:
  "on_message_start event s = Inr s' \<Longrightarrow> jsonBuffers s' = jsonBuffers s"
  unfolding on_message_start_def
  by (auto split: option.splits)

lemma on_message_stop_buffers:
  "on_message_stop event s = Inr s' \<Longrightarrow> jsonBuffers s' = jsonBuffers s"
  unfolding on_message_stop_def Let_def
  by (auto split: option.splits)

lemma updateMessage_other_buffer:
  assumes "updateMessage event s = Inr s'" "Index event \<noteq> Some idx"
  shows "jsonBuffers s' idx = jsonBuffers s idx"
  using assms unfolding updateMessage_def
  by (auto split: if_splits option.splits
      dest!: on_block_delta_buffers on_block_start_buffers on_block_stop_buffers
        on_message_start_buffers on_message_stop_buffers)

lemma updateMessage_own_buffer:
  assumes "updateMessage event s = Inr s'" "Index event = Some idx" "\<not> starts_at idx event"
    "idx < int (length (Content (message s)))"
    "ToolUseContent (Content (message s) ! nat idx) \<noteq> None"
  shows "buffer_at (jsonBuffers s') idx = buffer_at (jsonBuffers s) idx @ json_fragment event"
proof -
  consider (bs) "event_Type event = ContentBlockStartEvent"
    | (bd) "event_Type event = ContentBlockDeltaEvent"
    | (other) "event_Type event \<notin> {ContentBlockStartEvent, ContentBlockDeltaEvent}"
    by auto
  then show ?thesis
  proof cases
    case bs
    with assms have "s' = s"
      by (auto simp: updateMessage_def on_block_start_def starts_at_def event_defs
          split: option.splits)
    with bs show ?thesis by (simp add: json_fragment_def event_defs)
  next
    case bd
    with assms(1) have "on_block_delta event s = Inr s'"
      by (simp add: updateMessage_def event_defs)
    from on_block_delta_buffers [OF this] assms(2,4,5) bd show ?thesis
      by (auto simp: json_fragment_def buffer_at_def split: option.splits)
  next
    case other
    with assms(1) have "jsonBuffers s' = jsonBuffers s"
      by (auto simp: updateMessage_def split: if_splits
          dest: on_block_stop_buffers on_message_start_buffers on_message_stop_buffers)
    with other show ?thesis by (simp add: json_fragment_def)
  qed
qed

subsection \<open>Runs of events\<close>

lemma updateMessage_block_at:
  assumes "updateMessage event s = Inr s'" "j < length (Content (message s))"
    "\<not> starts_at (int j) event"
  shows "j < length (Content (message s'))"
    and "Content (message s') ! j =
      (if Index event = Some (int j)
       then block_step event (buffer_at (jsonBuffers s) (int j)) (Content (message s) ! j)
       else Content (message s) ! j)"
proof -
  from updateMessage_same_but [OF assms(1)] assms(2)
  show "j < length (Content (message s'))"
    by (simp add: same_but_def)
  show "Content (message s') ! j =
      (if Index event = Some (int j)
       then block_step event (buffer_at (jsonBuffers s) (int j)) (Content (message s) ! j)
       else Content (message s) ! j)"
  proof (cases "Index event = Some (int j)")
    case True
    from updateMessage_own_block [OF assms(1) True assms(3)] assms(2) True
    show ?thesis by simp
  next
    case False
    from updateMessage_same_but [OF assms(1)] assms(2) False
    show ?thesis by (auto simp: same_but_def)
  qed
qed

lemma TextContent_block_step:
  "TextContent (block_step event buf b) =
     map_option (\<lambda>t. t\<lparr>Text := Text t @ text_fragment event\<rparr>) (TextContent b)"
  by (cases "TextContent b"; cases "ToolUseContent b"; cases "ThinkingContent b")
     (auto simp: block_step_def text_fragment_def append_text_def append_thinking_def
      replace_signature_def replace_input_def split: option.splits)

lemma Signature_block_step:
  "map_option Signature (ThinkingContent (block_step event buf b)) =
     map_option (\<lambda>t. case signature_of event of None \<Rightarrow> Signature t | Some x \<Rightarrow> x)
       (ThinkingContent b)"
  by (cases "TextContent b"; cases "ToolUseContent b"; cases "ThinkingContent b")
     (auto simp: block_step_def signature_of_def append_text_def append_thinking_def
      replace_signature_def replace_input_def split: option.splits)

lemma ToolUseContent_block_step:
  "ToolUseContent (block_step event buf b) = None \<longleftrightarrow> ToolUseContent b = None"
  by (cases "TextContent b"; cases "ToolUseContent b"; cases "ThinkingContent b")
     (auto simp: block_step_def append_text_def append_thinking_def
      replace_signature_def replace_input_def split: option.splits)

lemma block_step_empty_block: "block_step event buf empty_block = empty_block"
  by (auto simp: block_step_def empty_block_def append_text_def append_thinking_def
      replace_signature_def replace_input_def split: option.splits)

lemma Input_block_step_stop:
  assumes "event_Type event = ContentBlockStopEvent" "ToolUseContent b \<noteq> None"
    "parse_buffer buf = Some inputObj"
  shows "map_option Input (ToolUseContent (block_step event buf b)) = Some inputObj"
  using assms
  by (auto simp: block_step_def replace_input_def event_defs)

lemma events_at_Cons:
  "events_at i (event # events) =
     (if Index event = Some i then event # events_at i events else events_at i events)"
  by (simp add: events_at_def)

lemma text_fragments_Cons:
  "text_fragments i (event # events) =
     (if Index event = Some i then text_fragment event else []) @ text_fragments i events"
  by (simp add: text_fragments_def events_at_Cons)

lemma json_fragments_Cons:
  "json_fragments i (event # events) =
     (if Index event = Some i then json_fragment event else []) @ json_fragments i events"
  by (simp add: json_fragments_def events_at_Cons)

lemma signature_deltas_Cons:
  "signature_deltas i (event # events) =
     (case (if Index event = Some i then signature_of event else None) of
        None \<Rightarrow> signature_deltas i events
      | Some x \<Rightarrow> x # signature_deltas i events)"
  by (simp add: signature_deltas_def events_at_Cons map_filter_simps split: option.splits)

lemma text_run:
  assumes "updateMessages events s = Inr s'"
    and "\<forall>event \<in> set events. \<not> starts_at (int j) event"
    and "j < length (Content (message s))"
  shows "j < length (Content (message s')) \<and>
    TextContent (Content (message s') ! j) =
      map_option (\<lambda>t. t\<lparr>Text := Text t @ text_fragments (int j) events\<rparr>)
        (TextContent (Content (message s) ! j))"
  using assms
proof (induction events arbitrary: s)
  case Nil
  then show ?case by (simp add: text_fragments_def events_at_def option.map_ident)
next
  case (Cons event events)
  from Cons.prems(1) obtain s1 where
    one: "updateMessage event s = Inr s1" and rest: "updateMessages events s1 = Inr s'"
    by (auto split: sum.splits)
  from Cons.prems(2) have ns: "\<not> starts_at (int j) event"
    and nss: "\<forall>event \<in> set events. \<not> starts_at (int j) event"
    by simp_all
  note b = updateMessage_block_at [OF one Cons.prems(3) ns]
  from Cons.IH [OF rest nss b(1)] b(2) show ?case
    by (cases "TextContent (Content (message s) ! j)")
       (simp_all add: TextContent_block_step text_fragments_Cons option.map_ident)
qed

lemma signature_run:
  assumes "updateMessages events s = Inr s'"
    and "\<forall>event \<in> set events. \<not> starts_at (int j) event"
    and "j < length (Content (message s))"
  shows "j < length (Content (message s')) \<and>
    map_option Signature (ThinkingContent (Content (message s') ! j)) =
      map_option (\<lambda>x. last (x # signature_deltas (int j) events))
        (map_option Signature (ThinkingContent (Content (message s) ! j)))"
  using assms
proof (induction events arbitrary: s)
  case Nil
  then show ?case by (simp add: signature_deltas_def events_at_def map_filter_simps option.map_ident)
next
  case (Cons event events)
  from Cons.prems(1) obtain s1 where
    one: "updateMessage event s = Inr s1" and rest: "updateMessages events s1 = Inr s'"
    by (auto split: sum.splits)
  from Cons.prems(2) have ns: "\<not> starts_at (int j) event"
    and nss: "\<forall>event \<in> set events. \<not> starts_at (int j) event"
    by simp_all
  note b = updateMessage_block_at [OF one Cons.prems(3) ns]
  let ?own = "if Index event = Some (int j) then signature_of event else None"
  from b(2) have sig1: "map_option Signature (ThinkingContent (Content (message s1) ! j)) =
      map_option (\<lambda>x. case ?own of None \<Rightarrow> x | Some y \<Rightarrow> y)
        (map_option Signature (ThinkingContent (Content (message s) ! j)))"
    by (simp add: Signature_block_step option.map_comp comp_def option.map_ident)
  from Cons.IH [OF rest nss b(1)] have
    len: "j < length (Content (message s'))" and
    sig2: "map_option Signature (ThinkingContent (Content (message s') ! j)) =
      map_option (\<lambda>x. last (x # signature_deltas (int j) events))
        (map_option Signature (ThinkingContent (Content (message s1) ! j)))"
    by simp_all
  have "map_option Signature (ThinkingContent (Content (message s') ! j)) =
      map_option (\<lambda>x. last (x # signature_deltas (int j) (event # events)))
        (map_option Signature (ThinkingContent (Content (message s) ! j)))"
    unfolding sig2 sig1
    by (cases ?own) (simp_all add: option.map_comp comp_def signature_deltas_Cons)
  with len show ?case by simp
qed

lemma json_run:
  assumes "updateMessages events s = Inr s'"
    and "\<forall>event \<in> set events. \<not> starts_at (int j) event"
    and "j < length (Content (message s))"
    and "ToolUseContent (Content (message s) ! j) \<noteq> None"
  shows "j < length (Content (message s')) \<and>
    ToolUseContent (Content (message s') ! j) \<noteq> None \<and>
    buffer_at (jsonBuffers s') (int j) =
      buffer_at (jsonBuffers s) (int j) @ json_fragments (int j) events"
  using assms
proof (induction events arbitrary: s)
  case Nil
  then show ?case by (simp add: json_fragments_def events_at_def)
next
  case (Cons event events)
  from Cons.prems(1) obtain s1 where
    one: "updateMessage event s = Inr s1" and rest: "updateMessages events s1 = Inr s'"
    by (auto split: sum.splits)
  from Cons.prems(2) have ns: "\<not> starts_at (int j) event"
    and nss: "\<forall>event \<in> set events. \<not> starts_at (int j) event"
    by simp_all
  note b = updateMessage_block_at [OF one Cons.prems(3) ns]
  from b(2) Cons.prems(4) have tu: "ToolUseContent (Content (message s1) ! j) \<noteq> None"
    by (simp add: ToolUseContent_block_step del: not_None_eq)
  have buf: "buffer_at (jsonBuffers s1) (int j) =
      buffer_at (jsonBuffers s) (int j) @ (if Index event = Some (int j) then json_fragment event else [])"
  proof (cases "Index event = Some (int j)")
    case True
    from updateMessage_own_buffer [OF one True ns] Cons.prems(3,4) True show ?thesis
      by simp
  next
    case False
    from updateMessage_other_buffer [OF one False] False show ?thesis
      by (simp add: buffer_at_def)
  qed
  from Cons.IH [OF rest nss b(1) tu] buf show ?case
    by (simp add: json_fragments_Cons)
qed

lemma placeholder_run:
  assumes "updateMessages events s = Inr s'"
    and "\<forall>event \<in> set events. \<forall>k < n. \<not> starts_at (int k) event"
    and "\<forall>k < n. k < length (Content (message s)) \<longrightarrow> Content (message s) ! k = empty_block"
  shows "\<forall>k < n. k < length (Content (message s')) \<longrightarrow> Content (message s') ! k = empty_block"
  using assms
proof (induction events arbitrary: s)
  case Nil
  then show ?case by simp
next
  case (Cons event events)
  from Cons.prems(1) obtain s1 where
    one: "updateMessage event s = Inr s1" and rest: "updateMessages events s1 = Inr s'"
    by (auto split: sum.splits)
  from Cons.prems(2) have ns: "\<forall>k < n. \<not> starts_at (int k) event"
    and nss: "\<forall>event \<in> set events. \<forall>k < n. \<not> starts_at (int k) event"
    by simp_all
  have "\<forall>k < n. k < length (Content (message s1)) \<longrightarrow> Content (message s1) ! k = empty_block"
  proof (intro allI impI)
    fix k assume k: "k < n" "k < length (Content (message s1))"
    show "Content (message s1) ! k = empty_block"
    proof (cases "Index event = Some (int k)")
      case False
      from updateMessage_same_but [OF one] k False Cons.prems(3) show ?thesis
        by (auto simp: same_but_def)
    next
      case True
      from ns k have nk: "\<not> starts_at (int k) event" by simp
      from updateMessage_own_block [OF one True nk] k(2)
      have len: "k < length (Content (message s))" by simp
      from updateMessage_block_at(2) [OF one len nk] True Cons.prems(3) k(1) len
      show ?thesis by (simp add: block_step_empty_block)
    qed
  qed
  from Cons.IH [OF rest nss this] show ?case .
qed

lemma on_block_start_result:
  assumes "updateMessage event s = Inr s'"
    and "event_Type event = ContentBlockStartEvent"
    and "Index event = Some i"
    and "event_ContentBlock event = Some cb"
  shows "0 \<le> i"
    and "length (Content (message s')) = max (length (Content (message s))) (nat (i + 1))"
    and "Content (message s') ! nat i = cb"
    and "ToolUseContent cb \<noteq> None \<Longrightarrow> buffer_at (jsonBuffers s') i = []"
proof -
  from assms have r: "on_block_start event s = Inr s'"
    by (simp add: updateMessage_def event_defs)
  from r assms(3,4) show "0 \<le> i"
    by (auto simp: on_block_start_def Let_def split: if_splits)
  from r assms(3,4) show "length (Content (message s')) = max (length (Content (message s))) (nat (i + 1))"
    by (auto simp: on_block_start_def Let_def length_grow_content split: if_splits)
  from r assms(3,4) show "Content (message s') ! nat i = cb"
    by (auto simp: on_block_start_def Let_def length_grow_content split: if_splits)
  from r assms(3,4) show "ToolUseContent cb \<noteq> None \<Longrightarrow> buffer_at (jsonBuffers s') i = []"
    by (auto simp: on_block_start_def Let_def buffer_at_def split: if_splits)
qed

lemma updateMessages_append_Inr:
  "updateMessages (xs @ ys) a = Inr c \<longleftrightarrow>
     (\<exists>b. updateMessages xs a = Inr b \<and> updateMessages ys b = Inr c)"
  by (induction xs arbitrary: a) (auto split: sum.splits)

lemma updateMessages_single: "updateMessages [event] s = updateMessage event s"
  by (cases "updateMessage event s") simp_all

subsection \<open>The frame of one event\<close>

text \<open>
  \<^bold>\<open>Claim C10.\<close> One event changes at most the content block at its own index: when
  \<^verbatim>\<open>updateMessage\<close> returns, the content sequence is no shorter than before, every
  block that was in the sequence at an index other than the event's is the block it was,
  and every block the event appended at an index other than its own is the empty
  placeholder. (Where the Go code panics, on a negative index, it has changed nothing
  before the panic and there is no state after it.)
\<close>

theorem updateMessage_frame:
  assumes "updateMessage event s = Inr s'"
  shows "length (Content (message s)) \<le> length (Content (message s')) \<and>
    (\<forall>j < length (Content (message s)). Index event \<noteq> Some (int j) \<longrightarrow>
        Content (message s') ! j = Content (message s) ! j) \<and>
    (\<forall>j < length (Content (message s')). length (Content (message s)) \<le> j \<longrightarrow>
        Index event \<noteq> Some (int j) \<longrightarrow> Content (message s') ! j = empty_block)"
  using updateMessage_same_but [OF assms]
  by (auto simp: same_but_def)

theorem updateMessage_frame_witness:
  "updateMessage (delta_event 0 (text_delta ''x''))
      (with_content [CreateTextBlock ''a'', CreateTextBlock ''b''])
     = Inr (with_content [CreateTextBlock ''ax'', CreateTextBlock ''b'']) \<and>
   length (Content (message (with_content [CreateTextBlock ''a'', CreateTextBlock ''b'']))) \<le>
     length (Content (message (with_content [CreateTextBlock ''ax'', CreateTextBlock ''b'']))) \<and>
   Content (message (with_content [CreateTextBlock ''ax'', CreateTextBlock ''b''])) ! 1 =
     Content (message (with_content [CreateTextBlock ''a'', CreateTextBlock ''b''])) ! 1"
proof -
  have run: "updateMessage (delta_event 0 (text_delta ''x''))
      (with_content [CreateTextBlock ''a'', CreateTextBlock ''b''])
     = Inr (with_content [CreateTextBlock ''ax'', CreateTextBlock ''b''])"
    by (simp add: updateMessage_def on_block_delta_def on_text_delta_def index_block_def
        set_block_def event_defs block_defs stream_defs)
  from updateMessage_frame [OF run] run show ?thesis
    by (simp add: stream_defs)
qed

text \<open>
  \<^bold>\<open>Claim C3\<close> says that a delta for an index at or beyond the length of the content
  sequence makes the assembler grow the sequence with placeholders, as a block start
  does. The code guards the whole delta case by \<^verbatim>\<open>if idx < len(s.message.Content)\<close>:
  on a fresh stream a text delta for index 0 returns the stream as it was, with an
  empty content sequence.
\<close>

theorem delta_before_start_grows_nothing:
  "updateMessage (delta_event 0 (text_delta ''x'')) (NewMessageStream no_input)
     = Inr (NewMessageStream no_input) \<and>
   length (Content (message (NewMessageStream no_input))) = 0"
  by (simp add: updateMessage_def on_block_delta_def event_defs stream_defs)

text \<open>
  \<^bold>\<open>Claim C3, amended.\<close> A delta event whose index is at or beyond the length of the
  content sequence does not fail and is discarded: \<^verbatim>\<open>updateMessage\<close> returns the stream
  unchanged (content sequence, JSON buffers and every other field).
\<close>

theorem delta_beyond_length_discarded:
  assumes "event_Type event = ContentBlockDeltaEvent"
    and "Index event = Some idx"
    and "int (length (Content (message s))) \<le> idx"
  shows "updateMessage event s = Inr s"
  using assms
  by (simp add: updateMessage_def on_block_delta_def MessageStartEvent_def
      ContentBlockStartEvent_def ContentBlockDeltaEvent_def split: option.splits)

theorem delta_beyond_length_discarded_witness:
  "updateMessage (delta_event 2 (input_json_delta ''{}''))
      (with_content [CreateToolUseBlock ''t1'' ''calc'' JNull])
     = Inr (with_content [CreateToolUseBlock ''t1'' ''calc'' JNull])"
proof -
  have "int (length (Content (message (with_content [CreateToolUseBlock ''t1'' ''calc'' JNull]))))
      \<le> 2"
    by (simp add: stream_defs)
  then show ?thesis
    using delta_beyond_length_discarded
      [of "delta_event 2 (input_json_delta ''{}'')" 2
          "with_content [CreateToolUseBlock ''t1'' ''calc'' JNull]"]
    by (simp add: delta_event_def)
qed

subsection \<open>Block starts with gaps\<close>

text \<open>
  \<^bold>\<open>Claim C7.\<close> Take a stream on which any events have been processed, none of them a
  block start for an index from 0 to 4. A block start for index 5 with snapshot \<open>cb\<close>
  then returns without a panic, the content sequence has at least 6 blocks, the blocks
  at the indices 0 to 4 are empty placeholders, and the block at index 5 is \<open>cb\<close>.
\<close>

theorem start_at_5_fills_placeholders:
  assumes run: "updateMessages events (NewMessageStream r) = Inr s"
    and unstarted: "\<forall>event \<in> set events. \<forall>k < 5. \<not> starts_at (int k) event"
    and start: "event_Type event5 = ContentBlockStartEvent" "Index event5 = Some 5"
      "event_ContentBlock event5 = Some cb"
  shows "\<exists>s'. updateMessage event5 s = Inr s' \<and>
    6 \<le> length (Content (message s')) \<and>
    (\<forall>k < 5. Content (message s') ! k = empty_block) \<and>
    Content (message s') ! 5 = cb"
proof -
  have "\<forall>k < 5. k < length (Content (message (NewMessageStream r))) \<longrightarrow>
      Content (message (NewMessageStream r)) ! k = empty_block"
    by (simp add: NewMessageStream_def zero_Message_def)
  from placeholder_run [OF run unstarted this]
  have inv: "\<forall>k < 5. k < length (Content (message s)) \<longrightarrow> Content (message s) ! k = empty_block" .
  from start obtain s' where one: "updateMessage event5 s = Inr s'"
    by (simp add: updateMessage_def on_block_start_def event_defs)
  note res = on_block_start_result [OF one start]
  from res(2) have len: "6 \<le> length (Content (message s'))" by simp
  have "\<forall>k < 5. Content (message s') ! k = empty_block"
  proof (intro allI impI)
    fix k :: nat assume k: "k < 5"
    with start(2) have "Index event5 \<noteq> Some (int k)" by simp
    with updateMessage_same_but [OF one] len k inv show "Content (message s') ! k = empty_block"
      by (auto simp: same_but_def)
  qed
  with one len res(3) show ?thesis by simp
qed

theorem start_at_5_fills_placeholders_witness:
  "updateMessages [delta_event 2 (text_delta ''a''), start_event 7 (CreateTextBlock ''z'')]
      (NewMessageStream no_input)
     = Inr (with_content (replicate 7 empty_block @ [CreateTextBlock ''z''])) \<and>
   (\<exists>s'. updateMessage (start_event 5 (CreateTextBlock ''x''))
            (with_content (replicate 7 empty_block @ [CreateTextBlock ''z''])) = Inr s' \<and>
         6 \<le> length (Content (message s')) \<and>
         Content (message s') ! 0 = empty_block \<and>
         Content (message s') ! 4 = empty_block \<and>
         Content (message s') ! 5 = CreateTextBlock ''x'')"
proof -
  have run: "updateMessages [delta_event 2 (text_delta ''a''), start_event 7 (CreateTextBlock ''z'')]
      (NewMessageStream no_input)
     = Inr (with_content (replicate 7 empty_block @ [CreateTextBlock ''z'']))"
    by (simp add: updateMessage_def on_block_delta_def on_block_start_def grow_content_replicate
        event_defs block_defs stream_defs eval_nat_numeral)
  have unstarted: "\<forall>event \<in> set [delta_event 2 (text_delta ''a''), start_event 7 (CreateTextBlock ''z'')].
      \<forall>k < 5. \<not> starts_at (int k) event"
    by (simp add: starts_at_def event_defs)
  from start_at_5_fills_placeholders [OF run unstarted, of "start_event 5 (CreateTextBlock ''x'')"
      "CreateTextBlock ''x''"]
  have "\<exists>s'. updateMessage (start_event 5 (CreateTextBlock ''x''))
            (with_content (replicate 7 empty_block @ [CreateTextBlock ''z''])) = Inr s' \<and>
    6 \<le> length (Content (message s')) \<and>
    (\<forall>k < 5. Content (message s') ! k = empty_block) \<and>
    Content (message s') ! 5 = CreateTextBlock ''x''"
    by (simp add: start_event_def zero_Event_def)
  with run show ?thesis by auto
qed

subsection \<open>Text accumulation\<close>

text \<open>
  \<^bold>\<open>Claim C2.\<close> Let a block start for index \<open>i\<close> carry a text block with empty text,
  and let the events after it hold no further block start for \<open>i\<close> (the lifecycle of
  the index: start, deltas, stop); events for other indices may be interleaved. When the
  run returns, the text of the block at index \<open>i\<close> is the concatenation of the text
  fragments of the \<^verbatim>\<open>text_delta\<close> events for index \<open>i\<close>, in event order.
\<close>

theorem text_is_concatenation_of_deltas:
  assumes start: "event_Type start = ContentBlockStartEvent" "Index start = Some i"
      "event_ContentBlock start = Some cb"
    and empty: "TextContent cb = Some t" "Text t = []"
    and lifecycle: "\<forall>event \<in> set events. \<not> starts_at i event"
    and run: "updateMessages (start # events) s = Inr s'"
  shows "map_option Text (TextContent (Content (message s') ! nat i)) =
    Some (text_fragments i events)"
proof -
  from run obtain s1 where
    one: "updateMessage start s = Inr s1" and rest: "updateMessages events s1 = Inr s'"
    by (auto split: sum.splits)
  note res = on_block_start_result [OF one start]
  from res(1) have i: "int (nat i) = i" by simp
  from res(1,2) have len: "nat i < length (Content (message s1))" by simp
  from lifecycle i have "\<forall>event \<in> set events. \<not> starts_at (int (nat i)) event" by simp
  from text_run [OF rest this len] res(3) empty i show ?thesis by simp
qed

theorem text_is_concatenation_of_deltas_witness:
  "updateMessages
      (start_event 0 (CreateTextBlock '''') #
       [delta_event 0 (text_delta ''Hel''), delta_event 0 (text_delta ''lo''), stop_event 0])
      (NewMessageStream no_input)
     = Inr (with_content [CreateTextBlock ''Hello'']) \<and>
   map_option Text (TextContent (Content (message (with_content [CreateTextBlock ''Hello''])) ! nat 0))
     = Some (text_fragments 0
         [delta_event 0 (text_delta ''Hel''), delta_event 0 (text_delta ''lo''), stop_event 0]) \<and>
   text_fragments 0
     [delta_event 0 (text_delta ''Hel''), delta_event 0 (text_delta ''lo''), stop_event 0] = ''Hello''"
proof -
  have run: "updateMessages
      (start_event 0 (CreateTextBlock '''') #
       [delta_event 0 (text_delta ''Hel''), delta_event 0 (text_delta ''lo''), stop_event 0])
      (NewMessageStream no_input)
     = Inr (with_content [CreateTextBlock ''Hello''])"
    by (simp add: updateMessage_def on_block_delta_def on_block_start_def on_block_stop_def
        on_text_delta_def index_block_def set_block_def
        grow_content_replicate event_defs block_defs stream_defs)
  have lifecycle: "\<forall>event \<in> set [delta_event 0 (text_delta ''Hel''),
      delta_event 0 (text_delta ''lo''), stop_event 0]. \<not> starts_at 0 event"
    by (simp add: starts_at_def event_defs)
  have frags: "text_fragments 0
     [delta_event 0 (text_delta ''Hel''), delta_event 0 (text_delta ''lo''), stop_event 0] = ''Hello''"
    by (simp add: text_fragments_def events_at_def text_fragment_def event_defs)
  from text_is_concatenation_of_deltas [OF _ _ _ _ _ lifecycle run,
      of "CreateTextBlock ''''" "\<lparr>text_Type = TextContentType, Text = ''''\<rparr>"]
  have "map_option Text (TextContent (Content (message (with_content [CreateTextBlock ''Hello''])) ! nat 0))
     = Some (text_fragments 0
         [delta_event 0 (text_delta ''Hel''), delta_event 0 (text_delta ''lo''), stop_event 0])"
    by (simp add: start_event_def zero_Event_def CreateTextBlock_def empty_block_def)
  with run frags show ?thesis by simp
qed

subsection \<open>Signatures of reasoning blocks\<close>

text \<open>
  \<^bold>\<open>Claim C6.\<close> Let the block at index \<open>i\<close> be a reasoning block, and let events be
  processed that hold no block start for \<open>i\<close>, at least one of them a
  \<^verbatim>\<open>signature_delta\<close> for \<open>i\<close>. Afterwards the signature of the block is the
  signature of the last such event; the witness has two of them, \<^verbatim>\<open>ab\<close> and \<^verbatim>\<open>cd\<close>,
  and ends with \<^verbatim>\<open>cd\<close>, not \<^verbatim>\<open>abcd\<close>.
\<close>

theorem signature_is_last_delta:
  assumes block: "0 \<le> i" "nat i < length (Content (message s))"
      "ThinkingContent (Content (message s) ! nat i) = Some t"
    and lifecycle: "\<forall>event \<in> set events. \<not> starts_at i event"
    and run: "updateMessages events s = Inr s'"
    and some: "signature_deltas i events \<noteq> []"
  shows "map_option Signature (ThinkingContent (Content (message s') ! nat i)) =
    Some (last (signature_deltas i events))"
proof -
  from block(1) have i: "int (nat i) = i" by simp
  from lifecycle i have "\<forall>event \<in> set events. \<not> starts_at (int (nat i)) event" by simp
  from signature_run [OF run this block(2)] block(3) i some show ?thesis by simp
qed

theorem signature_is_last_delta_witness:
  "updateMessages
      [delta_event 0 (signature_delta ''ab''), delta_event 0 (thinking_delta ''x''),
       delta_event 0 (signature_delta ''cd'')]
      (with_content [thinking_block '''' ''''])
     = Inr (with_content [thinking_block ''x'' ''cd'']) \<and>
   signature_deltas 0
      [delta_event 0 (signature_delta ''ab''), delta_event 0 (thinking_delta ''x''),
       delta_event 0 (signature_delta ''cd'')] = [''ab'', ''cd''] \<and>
   map_option Signature (ThinkingContent (Content (message (with_content [thinking_block ''x'' ''cd''])) ! nat 0))
     = Some ''cd''"
proof -
  let ?events = "[delta_event 0 (signature_delta ''ab''), delta_event 0 (thinking_delta ''x''),
       delta_event 0 (signature_delta ''cd'')]"
  have run: "updateMessages ?events (with_content [thinking_block '''' ''''])
     = Inr (with_content [thinking_block ''x'' ''cd''])"
    by (simp add: updateMessage_def on_block_delta_def on_signature_delta_def
        on_thinking_delta_def index_block_def set_block_def event_defs block_defs stream_defs)
  have sigs: "signature_deltas 0 ?events = [''ab'', ''cd'']"
    by (simp add: signature_deltas_def events_at_def signature_of_def map_filter_simps event_defs)
  have lifecycle: "\<forall>event \<in> set ?events. \<not> starts_at 0 event"
    by (simp add: starts_at_def event_defs)
  have block: "(0::int) \<le> 0" "nat 0 < length (Content (message (with_content [thinking_block '''' ''''])))"
    "ThinkingContent (Content (message (with_content [thinking_block '''' ''''])) ! nat 0) =
       Some \<lparr>thinking_Type = ThinkingContentType, Thinking = '''', Signature = ''''\<rparr>"
    by (simp_all add: stream_defs block_defs)
  from signature_is_last_delta [OF block lifecycle run] sigs
  have "map_option Signature (ThinkingContent (Content (message (with_content [thinking_block ''x'' ''cd''])) ! nat 0))
     = Some ''cd''"
    by simp
  with run sigs show ?thesis by simp
qed

subsection \<open>Structured input of tool-use blocks\<close>

text \<open>
  \<^bold>\<open>Claim C1\<close> promises the parsed input for every payload that is a syntactically
  valid JSON object, however it is split. The code tests the raw buffer, untrimmed, for
  a leading \<^verbatim>\<open>{\<close> and a trailing \<^verbatim>\<open>}\<close> before it calls \<^verbatim>\<open>json.Unmarshal\<close>. The
  payload \<^verbatim>\<open>{"a":1}\<close> followed by one space is a valid JSON text for an object, yet
  delivered as one fragment it never passes the test and the input stays the start
  snapshot's empty object; delivered as \<^verbatim>\<open>{"a":1}\<close> and then the space, the first
  fragment parses and the input is the object. The two splittings of one payload
  disagree.
\<close>

theorem rechunked_tool_input_differs:
  \<open>json_parse ''{"a":1} '' = Some (JObject [(''a'', JNumber ''1'')]) \<and>
   json_fragments 0 [delta_event 0 (input_json_delta ''{"a":1} '')] = ''{"a":1} '' \<and>
   json_fragments 0
      [delta_event 0 (input_json_delta ''{"a":1}''), delta_event 0 (input_json_delta '' '')]
     = ''{"a":1} '' \<and>
   input_after 0
      [start_event 0 (CreateToolUseBlock ''t1'' ''calc'' (JObject [])),
       delta_event 0 (input_json_delta ''{"a":1} ''),
       stop_event 0]
      (NewMessageStream no_input) = Some (JObject []) \<and>
   input_after 0
      [start_event 0 (CreateToolUseBlock ''t1'' ''calc'' (JObject [])),
       delta_event 0 (input_json_delta ''{"a":1}''),
       delta_event 0 (input_json_delta '' ''),
       stop_event 0]
      (NewMessageStream no_input) = Some (JObject [(''a'', JNumber ''1'')])\<close>
  by code_simp

text \<open>
  \<^bold>\<open>Claim C1, amended.\<close> Let a block start for index \<open>i\<close> carry a tool-use block, let
  the events after it hold no further block start for \<open>i\<close>, and let a block stop for
  \<open>i\<close> end the run. If the concatenation of the \<^verbatim>\<open>input_json_delta\<close> fragments for
  \<open>i\<close>, in event order, begins with \<^verbatim>\<open>{\<close>, ends with \<^verbatim>\<open>}\<close> and is decoded by
  \<^verbatim>\<open>json.Unmarshal\<close> without error (\<^const>\<open>parse_buffer\<close> returns the object), then
  after the stop the input of the block is that object. The conclusion depends on the
  fragments through their concatenation only, so it is the same for every splitting.
\<close>

theorem tool_input_is_parsed_buffer:
  assumes start: "event_Type start = ContentBlockStartEvent" "Index start = Some i"
      "event_ContentBlock start = Some cb"
    and tool: "ToolUseContent cb \<noteq> None"
    and lifecycle: "\<forall>event \<in> set events. \<not> starts_at i event"
    and stop: "event_Type stop = ContentBlockStopEvent" "Index stop = Some i"
    and run: "updateMessages (start # events @ [stop]) s = Inr s'"
    and parsed: "parse_buffer (json_fragments i events) = Some inputObj"
  shows "input_after i (start # events @ [stop]) s = Some inputObj"
proof -
  from run obtain s1 where
    one: "updateMessage start s = Inr s1" and rest: "updateMessages (events @ [stop]) s1 = Inr s'"
    by (auto split: sum.splits)
  from rest [unfolded updateMessages_append_Inr updateMessages_single] obtain s2 where
    mid: "updateMessages events s1 = Inr s2" and last: "updateMessage stop s2 = Inr s'"
    by blast
  note res = on_block_start_result [OF one start]
  from res(1) have i: "int (nat i) = i" by simp
  from res(1,2) have len: "nat i < length (Content (message s1))" by simp
  from lifecycle i have nss: "\<forall>event \<in> set events. \<not> starts_at (int (nat i)) event" by simp
  from res(3) tool have tu: "ToolUseContent (Content (message s1) ! nat i) \<noteq> None" by simp
  from json_run [OF mid nss len tu] res(4) [OF tool] i
  have len2: "nat i < length (Content (message s2))"
    and tu2: "ToolUseContent (Content (message s2) ! nat i) \<noteq> None"
    and buf: "buffer_at (jsonBuffers s2) i = json_fragments i events"
    by simp_all
  from stop have ns: "\<not> starts_at (int (nat i)) stop"
    by (simp add: starts_at_def event_defs)
  from stop(2) i have idx: "Index stop = Some (int (nat i))" by simp
  note b = updateMessage_block_at [OF last len2 ns]
  from b(2) idx buf i parsed
  have "map_option Input (ToolUseContent (Content (message s') ! nat i)) = Some inputObj"
    by (simp add: Input_block_step_stop [OF stop(1) tu2])
  with run b(1) res(1) show ?thesis
    by (simp add: input_after_def)
qed

theorem tool_input_is_parsed_buffer_witness:
  \<open>parse_buffer (json_fragments 0
      [delta_event 0 (input_json_delta ''{"a"''),
       delta_event 0 (input_json_delta '':1,"b":2''),
       delta_event 0 (input_json_delta ''}'')])
     = Some (JObject [(''a'', JNumber ''1''), (''b'', JNumber ''2'')]) \<and>
   input_after 0
      (start_event 0 (CreateToolUseBlock ''t1'' ''calc'' (JObject [])) #
       [delta_event 0 (input_json_delta ''{"a"''),
        delta_event 0 (input_json_delta '':1,"b":2''),
        delta_event 0 (input_json_delta ''}'')] @ [stop_event 0])
      (NewMessageStream no_input)
     = Some (JObject [(''a'', JNumber ''1''), (''b'', JNumber ''2'')])\<close>
proof -
  let ?start = "start_event 0 (CreateToolUseBlock ''t1'' ''calc'' (JObject []))"
  let ?events = \<open>[delta_event 0 (input_json_delta ''{"a"''),
       delta_event 0 (input_json_delta '':1,"b":2''),
       delta_event 0 (input_json_delta ''}'')]\<close>
  have "\<not> isl (updateMessages (?start # ?events @ [stop_event 0]) (NewMessageStream no_input))"
    by code_simp
  then obtain s' where
    run: "updateMessages (?start # ?events @ [stop_event 0]) (NewMessageStream no_input) = Inr s'"
    by (cases "updateMessages (?start # ?events @ [stop_event 0]) (NewMessageStream no_input)")
       simp_all
  have parsed: "parse_buffer (json_fragments 0 ?events)
     = Some (JObject [(''a'', JNumber ''1''), (''b'', JNumber ''2'')])"
    by code_simp
  have lifecycle: "\<forall>event \<in> set ?events. \<not> starts_at 0 event"
    by (simp add: starts_at_def event_defs)
  have start: "event_Type ?start = ContentBlockStartEvent" "Index ?start = Some 0"
    "event_ContentBlock ?start = Some (CreateToolUseBlock ''t1'' ''calc'' (JObject []))"
    "ToolUseContent (CreateToolUseBlock ''t1'' ''calc'' (JObject [])) \<noteq> None"
    by (simp_all add: start_event_def zero_Event_def CreateToolUseBlock_def empty_block_def)
  have stop: "event_Type (stop_event 0) = ContentBlockStopEvent" "Index (stop_event 0) = Some 0"
    by (simp_all add: stop_event_def zero_Event_def)
  from tool_input_is_parsed_buffer [OF start lifecycle stop run parsed] parsed
  show ?thesis by simp
qed

section \<open>Properties of the decoder\<close>

subsection \<open>One call of \<^verbatim>\<open>Next\<close>, by the shape of the input\<close>

lemma dropWhile_to_newline:
  "newline \<notin> set line \<Longrightarrow>
   dropWhile (\<lambda>c. c \<noteq> newline) (line @ newline # rest) = newline # rest"
  by (induction line) auto

lemma takeWhile_to_newline:
  "newline \<notin> set line \<Longrightarrow> takeWhile (\<lambda>c. c \<noteq> newline) (line @ newline # rest) = line"
  by (induction line) auto

lemma dropWhile_no_newline:
  "newline \<notin> set line \<Longrightarrow> dropWhile (\<lambda>c. c \<noteq> newline) line = []"
  by (induction line) auto

lemma ReadBytes_line:
  assumes "newline \<notin> set line" "pending r = line @ newline # rest"
  shows "ReadBytes r = ((line @ [newline], None), r\<lparr>pending := rest\<rparr>)"
  using assms
  by (simp add: ReadBytes_def dropWhile_to_newline takeWhile_to_newline)

lemma ReadBytes_end:
  assumes "newline \<notin> set (pending r)"
  shows "ReadBytes r =
    ((pending r, Some (if broken r then ReadFailure else EOF)), r\<lparr>pending := []\<rparr>)"
  using assms
  by (simp add: ReadBytes_def dropWhile_no_newline)

lemma Next_line:
  assumes "err s = None" "pending (reader s) = line @ newline # rest" "newline \<notin> set line"
  shows "Next s =
    (if TrimSpace (line @ [newline]) = [] \<or> \<not> HasPrefix (TrimSpace (line @ [newline])) ''data: ''
     then Next (s\<lparr>reader := (reader s)\<lparr>pending := rest\<rparr>\<rparr>)
     else
       (case unmarshal_Event (drop (length ''data: '') (TrimSpace (line @ [newline]))) of
          None \<Rightarrow>
            Inr (False, s\<lparr>reader := (reader s)\<lparr>pending := rest\<rparr>, err := Some ErrParsingEvent\<rparr>)
        | Some event \<Rightarrow>
            (case updateMessage event
                    (s\<lparr>reader := (reader s)\<lparr>pending := rest\<rparr>, currentEvent := Some event\<rparr>) of
               Inl p \<Rightarrow> Inl p
             | Inr s' \<Rightarrow> Inr (True, s'))))"
  by (subst Next.simps) (simp add: assms(1) ReadBytes_line [OF assms(3,2)])

lemma Next_end:
  assumes "err s = None" "newline \<notin> set (pending (reader s))"
  shows "Next s =
    Inr (False,
      if broken (reader s)
      then s\<lparr>reader := (reader s)\<lparr>pending := []\<rparr>, err := Some ErrReadingStream\<rparr>
      else s\<lparr>reader := (reader s)\<lparr>pending := []\<rparr>\<rparr>)"
  by (subst Next.simps) (simp add: assms(1) ReadBytes_end [OF assms(2)])

lemma Next_after_error: "err s \<noteq> None \<Longrightarrow> Next s = Inr (False, s)"
  by (subst Next.simps) simp

lemma with_tail_update [simp]:
  "with_tail tail (s\<lparr>reader := r\<rparr>) = s\<lparr>reader := r\<lparr>pending := pending r @ tail\<rparr>\<rparr>"
  "with_tail tail (s\<lparr>err := e\<rparr>) = (with_tail tail s)\<lparr>err := e\<rparr>"
  "with_tail tail (s\<lparr>currentEvent := c\<rparr>) = (with_tail tail s)\<lparr>currentEvent := c\<rparr>"
  by (simp_all add: with_tail_def)

lemma Next_with_tail:
  assumes "newline \<notin> set tail" "\<not> broken (reader s)"
  shows "Next (with_tail tail s) =
    (case Next s of
       Inl p \<Rightarrow> Inl p
     | Inr (again, s') \<Rightarrow>
         Inr (again, if again \<or> err s' \<noteq> None then with_tail tail s' else s'))"
  using assms(2)
proof (induction "length (pending (reader s))" arbitrary: s rule: less_induct)
  case less
  show ?case
  proof (cases "err s = None")
    case False
    then have "err (with_tail tail s) \<noteq> None" by (simp add: with_tail_def)
    with False show ?thesis by (simp add: Next_after_error)
  next
    case e: True
    then have e': "err (with_tail tail s) = None" by (simp add: with_tail_def)
    show ?thesis
    proof (cases "newline \<in> set (pending (reader s))")
      case False
      with assms(1) have "newline \<notin> set (pending (reader (with_tail tail s)))"
        by (simp add: with_tail_def)
      from Next_end [OF e' this] Next_end [OF e False] less.prems e show ?thesis
        by (simp add: with_tail_def)
    next
      case True
      then obtain line rest where
        p: "pending (reader s) = line @ newline # rest" and l: "newline \<notin> set line"
        by (auto dest: split_list_first)
      let ?s1 = "s\<lparr>reader := (reader s)\<lparr>pending := rest\<rparr>\<rparr>"
      from p have p': "pending (reader (with_tail tail s)) = line @ newline # (rest @ tail)"
        by (simp add: with_tail_def)
      have r1: "(with_tail tail s)\<lparr>reader := (reader (with_tail tail s))\<lparr>pending := rest @ tail\<rparr>\<rparr>
          = with_tail tail ?s1"
        by (simp add: with_tail_def)
      from p have "length (pending (reader ?s1)) < length (pending (reader s))" by simp
      moreover from less.prems have "\<not> broken (reader ?s1)" by simp
      ultimately have IH: "Next (with_tail tail ?s1) =
        (case Next ?s1 of
           Inl p \<Rightarrow> Inl p
         | Inr (again, s') \<Rightarrow>
             Inr (again, if again \<or> err s' \<noteq> None then with_tail tail s' else s'))"
        by (rule less.hyps)
      show ?thesis
      proof (cases "TrimSpace (line @ [newline]) = [] \<or>
          \<not> HasPrefix (TrimSpace (line @ [newline])) ''data: ''")
        case True
        with Next_line [OF e' p' l] Next_line [OF e p l] r1 IH show ?thesis
          by simp
      next
        case data: False
        show ?thesis
        proof (cases "unmarshal_Event (drop (length ''data: '') (TrimSpace (line @ [newline])))")
          case None
          with data Next_line [OF e' p' l] Next_line [OF e p l] show ?thesis
            by (simp add: with_tail_def)
        next
          case (Some event)
          show ?thesis
          proof (cases "updateMessage event (s\<lparr>currentEvent := Some event\<rparr>)")
            case (Inl p)
            with data Some Next_line [OF e' p' l] Next_line [OF e p l] show ?thesis
              by (simp add: updateMessage_reader_current with_tail_def)
          next
            case (Inr s')
            with data Some Next_line [OF e' p' l] Next_line [OF e p l] show ?thesis
              by (simp add: updateMessage_reader_current with_tail_def)
          qed
        qed
      qed
    qed
  qed
qed

lemma TrimSpace_bad_line: \<open>TrimSpace (''data: {not json'' @ [newline]) = ''data: {not json''\<close>
  by code_simp

lemma unmarshal_bad_payload: \<open>unmarshal_Event ''{not json'' = None\<close>
  by code_simp

lemma Next_malformed_line:
  assumes "err s = None"
    and \<open>pending (reader s) = ''data: {not json'' @ newline # rest\<close>
  shows \<open>Next s = Inr (False, s\<lparr>reader := (reader s)\<lparr>pending := rest\<rparr>, err := Some ErrParsingEvent\<rparr>)\<close>
proof -
  have l: \<open>newline \<notin> set ''data: {not json''\<close>
    by (simp add: newline_def)
  have p: \<open>HasPrefix ''data: {not json'' ''data: ''\<close>
    by (simp add: HasPrefix_def)
  have d: \<open>drop (length ''data: '') ''data: {not json'' = ''{not json''\<close>
    by simp
  from Next_line [OF assms(1) assms(2) l] p show ?thesis
    by (simp only: TrimSpace_bad_line d unmarshal_bad_payload) simp
qed

subsection \<open>Malformed data lines\<close>

text \<open>
  \<^bold>\<open>Claim C5\<close> is stated for the line \<^verbatim>\<open>data:{not json\<close>, which has no space after
  the colon. \<^verbatim>\<open>Next\<close> only takes a line for an event when it begins with the six bytes
  \<^verbatim>\<open>data: \<close>; this line is skipped like a comment. No error is recorded and the
  iteration goes on: the call returns true with the event of the next line.
\<close>

theorem data_line_without_space_is_skipped:
  \<open>outcome (Next (NewMessageStream (stream_lines
      [''data:{not json'',
       ''data: {"type":"message_start","message":{"id":"m1","role":"assistant"}}''])))
     = Inr (True, None, zero_Message\<lparr>ID := ''m1'', Role := ''assistant''\<rparr>)\<close>
  by code_simp

text \<open>
  \<^bold>\<open>Claim C5, amended.\<close> On a stream without a recorded error whose next line is
  \<^verbatim>\<open>data: {not json\<close> (with the space of the \<^verbatim>\<open>data: \<close> prefix), the call of \<^verbatim>\<open>Next\<close>
  returns false and records the parse error, which \<^verbatim>\<open>Err\<close> returns; the accumulated
  message is the one before the call, whatever events had been folded into it; and the
  next call returns false again.
\<close>

theorem malformed_data_line_is_decode_error:
  assumes "err s = None"
    and \<open>pending (reader s) = ''data: {not json'' @ newline # rest\<close>
  shows \<open>Next s = Inr (False, s\<lparr>reader := (reader s)\<lparr>pending := rest\<rparr>, err := Some ErrParsingEvent\<rparr>) \<and>
    Err (s\<lparr>reader := (reader s)\<lparr>pending := rest\<rparr>, err := Some ErrParsingEvent\<rparr>) = Some ErrParsingEvent \<and>
    Message (s\<lparr>reader := (reader s)\<lparr>pending := rest\<rparr>, err := Some ErrParsingEvent\<rparr>) = Message s \<and>
    Next (s\<lparr>reader := (reader s)\<lparr>pending := rest\<rparr>, err := Some ErrParsingEvent\<rparr>) =
      Inr (False, s\<lparr>reader := (reader s)\<lparr>pending := rest\<rparr>, err := Some ErrParsingEvent\<rparr>)\<close>
  using Next_malformed_line [OF assms]
  by (simp add: Next_after_error Err_def Message_def)

theorem malformed_data_line_is_decode_error_witness:
  \<open>Next ((with_content [CreateTextBlock ''Hel''])
           \<lparr>reader := \<lparr>pending = ''data: {not json'' @ [newline], broken = False\<rparr>\<rparr>)
     = Inr (False, (with_content [CreateTextBlock ''Hel''])\<lparr>err := Some ErrParsingEvent\<rparr>) \<and>
   Message ((with_content [CreateTextBlock ''Hel''])\<lparr>err := Some ErrParsingEvent\<rparr>)
     = zero_Message\<lparr>Content := [CreateTextBlock ''Hel'']\<rparr>\<close>
proof -
  let ?s = \<open>(with_content [CreateTextBlock ''Hel''])
           \<lparr>reader := \<lparr>pending = ''data: {not json'' @ [newline], broken = False\<rparr>\<rparr>\<close>
  have e: "err ?s = None"
    by (simp add: stream_defs)
  have p: \<open>pending (reader ?s) = ''data: {not json'' @ newline # []\<close>
    by simp
  from malformed_data_line_is_decode_error [OF e p] show ?thesis
    by (simp add: stream_defs Message_def)
qed

subsection \<open>After an error\<close>

text \<open>
  \<^bold>\<open>Claim C8.\<close> Once \<^verbatim>\<open>Err\<close> returns an error (the read error or the parse error, the
  only two \<^verbatim>\<open>Next\<close> records), a call of \<^verbatim>\<open>Next\<close> returns false and leaves the whole
  stream as it is: nothing is read, the message is not touched, the error stays. So does
  any number of further calls. The witness reaches both errors by a call of \<^verbatim>\<open>Next\<close>:
  on a malformed data line, and on an input that breaks off with a read failure.
\<close>

theorem no_advance_after_error:
  assumes "Err s = Some e"
  shows "Next s = Inr (False, s) \<and> after_calls n s = Inr s"
proof -
  from assms have ne: "err s \<noteq> None" by (simp add: Err_def)
  have "after_calls n s = Inr s"
    by (induction n) (simp_all add: Next_after_error [OF ne])
  with ne show ?thesis by (simp add: Next_after_error)
qed

theorem no_advance_after_error_witness:
  \<open>Next (NewMessageStream (stream_lines [''data: {not json'']))
     = Inr (False, (NewMessageStream no_input)\<lparr>err := Some ErrParsingEvent\<rparr>) \<and>
   Next ((NewMessageStream no_input)\<lparr>err := Some ErrParsingEvent\<rparr>)
     = Inr (False, (NewMessageStream no_input)\<lparr>err := Some ErrParsingEvent\<rparr>) \<and>
   after_calls 3 ((NewMessageStream no_input)\<lparr>err := Some ErrParsingEvent\<rparr>)
     = Inr ((NewMessageStream no_input)\<lparr>err := Some ErrParsingEvent\<rparr>) \<and>
   Next (NewMessageStream \<lparr>pending = ''data: {"ty'', broken = True\<rparr>)
     = Inr (False, (NewMessageStream \<lparr>pending = [], broken = True\<rparr>)\<lparr>err := Some ErrReadingStream\<rparr>) \<and>
   Next ((NewMessageStream \<lparr>pending = [], broken = True\<rparr>)\<lparr>err := Some ErrReadingStream\<rparr>)
     = Inr (False, (NewMessageStream \<lparr>pending = [], broken = True\<rparr>)\<lparr>err := Some ErrReadingStream\<rparr>)\<close>
proof -
  let ?a = "(NewMessageStream no_input)\<lparr>err := Some ErrParsingEvent\<rparr>"
  let ?b = "(NewMessageStream \<lparr>pending = [], broken = True\<rparr>)\<lparr>err := Some ErrReadingStream\<rparr>"
  have a0: \<open>Next (NewMessageStream (stream_lines [''data: {not json''])) = Inr (False, ?a)\<close>
    using Next_malformed_line [of "NewMessageStream (stream_lines [''data: {not json''])" "[]"]
    by (simp add: stream_defs stream_lines_def)
  have b0: \<open>Next (NewMessageStream \<lparr>pending = ''data: {"ty'', broken = True\<rparr>) = Inr (False, ?b)\<close>
  proof -
    have \<open>newline \<notin> set (pending (reader (NewMessageStream \<lparr>pending = ''data: {"ty'', broken = True\<rparr>)))\<close>
      by (simp add: newline_def stream_defs)
    from Next_end [OF _ this] show ?thesis
      by (simp add: stream_defs)
  qed
  have ea: "Err ?a = Some ErrParsingEvent" and eb: "Err ?b = Some ErrReadingStream"
    by (simp_all add: Err_def)
  from no_advance_after_error [OF ea, of 3] no_advance_after_error [OF eb, of 0] a0 b0
  show ?thesis by simp
qed

subsection \<open>An unterminated last line\<close>

text \<open>
  \<^bold>\<open>Claim C9.\<close> Let the input end, without a read failure, in bytes \<open>tail\<close> that hold
  no newline. A call of \<^verbatim>\<open>Next\<close> then does what it does on the input without
  \<open>tail\<close>: the same result, the same message, current event and error, with \<open>tail\<close>
  still unread if the call stopped before the end of the input. And when \<open>tail\<close> is all
  that is left, the call returns false, records no error and changes nothing but the
  reader, which has dropped \<open>tail\<close>. In the witness \<open>tail\<close> is a well-formed data line;
  with a newline after it the same line is delivered as an event.
\<close>

theorem unterminated_final_line_is_discarded:
  assumes "newline \<notin> set tail" and "\<not> broken (reader s)" and "err s = None"
  shows "Next (with_tail tail s) =
      (case Next s of
         Inl p \<Rightarrow> Inl p
       | Inr (again, s') \<Rightarrow>
           Inr (again, if again \<or> err s' \<noteq> None then with_tail tail s' else s')) \<and>
    (pending (reader s) = [] \<longrightarrow> Next (with_tail tail s) = Inr (False, s))"
proof -
  have "Next (with_tail tail s) = Inr (False, s)" if "pending (reader s) = []"
  proof -
    from that assms(1) have "newline \<notin> set (pending (reader (with_tail tail s)))"
      by (simp add: with_tail_def)
    moreover from assms(3) have "err (with_tail tail s) = None"
      by (simp add: with_tail_def)
    ultimately show ?thesis
      using Next_end [of "with_tail tail s"] assms(2) that
      by (simp add: with_tail_def)
  qed
  with Next_with_tail [OF assms(1,2)] show ?thesis by simp
qed

theorem unterminated_final_line_is_discarded_witness:
  \<open>Next (with_tail ''data: {"type":"message_start","message":{"id":"m1","role":"assistant"}}''
          (NewMessageStream no_input))
     = Inr (False, NewMessageStream no_input) \<and>
   outcome (Next (NewMessageStream (stream_lines
      [''data: {"type":"message_start","message":{"id":"m1","role":"assistant"}}''])))
     = Inr (True, None, zero_Message\<lparr>ID := ''m1'', Role := ''assistant''\<rparr>)\<close>
proof -
  let ?tail = \<open>''data: {"type":"message_start","message":{"id":"m1","role":"assistant"}}''\<close>
  have h1: "newline \<notin> set ?tail"
    by (simp add: newline_def)
  have h2: "\<not> broken (reader (NewMessageStream no_input))"
    and h3: "err (NewMessageStream no_input) = None"
    by (simp_all add: stream_defs)
  have h4: "pending (reader (NewMessageStream no_input)) = []"
    by (simp add: stream_defs)
  from unterminated_final_line_is_discarded [OF h1 h2 h3]
  have "pending (reader (NewMessageStream no_input)) = [] \<longrightarrow>
      Next (with_tail ?tail (NewMessageStream no_input)) = Inr (False, NewMessageStream no_input)"
    by (rule conjunct2)
  with h4
  have "Next (with_tail ?tail (NewMessageStream no_input)) = Inr (False, NewMessageStream no_input)"
    by (rule rev_mp)
  moreover have "outcome (Next (NewMessageStream (stream_lines [?tail])))
     = Inr (True, None, zero_Message\<lparr>ID := ''m1'', Role := ''assistant''\<rparr>)"
    by code_simp
  ultimately show ?thesis by simp
qed

subsection \<open>The end-to-end scenario\<close>

text \<open>
  \<^bold>\<open>Claim C4\<close> feeds six lines that begin with \<^verbatim>\<open>data:{\<close>, without the space of the
  prefix \<^verbatim>\<open>data: \<close> that \<^verbatim>\<open>Next\<close> tests for. All six lines are skipped, and iteration
  to exhaustion leaves the zero message: no id, no role, no content.
\<close>

theorem scenario_without_space_yields_zero_message:
  \<open>final_message (stream_lines
     [''data:{"type":"message_start","message":{"id":"m1","role":"assistant"}}'',
      ''data:{"type":"content_block_start","index":0,"content_block":{"type":"text","text":""}}'',
      ''data:{"type":"content_block_delta","index":0,"delta":{"type":"text_delta","text":"Hel"}}'',
      ''data:{"type":"content_block_delta","index":0,"delta":{"type":"text_delta","text":"lo"}}'',
      ''data:{"type":"content_block_stop","index":0}'',
      ''data:{"type":"message_stop","stop_reason":"end_turn","usage":{"input_tokens":5,"output_tokens":2}}''])
   = Inr zero_Message\<close>
  by code_simp

text \<open>
  \<^bold>\<open>Claim C4, amended.\<close> The same six events on lines that begin with \<^verbatim>\<open>data: \<close>
  (colon and space): iteration to exhaustion yields the message with id \<^verbatim>\<open>m1\<close>, role
  \<^verbatim>\<open>assistant\<close>, exactly one block, a text block reading \<^verbatim>\<open>Hello\<close>, stop reason
  \<^verbatim>\<open>end_turn\<close> and usage of 5 input and 2 output tokens.
\<close>

theorem scenario_with_prefix_yields_hello:
  \<open>final_message (stream_lines
     [''data: {"type":"message_start","message":{"id":"m1","role":"assistant"}}'',
      ''data: {"type":"content_block_start","index":0,"content_block":{"type":"text","text":""}}'',
      ''data: {"type":"content_block_delta","index":0,"delta":{"type":"text_delta","text":"Hel"}}'',
      ''data: {"type":"content_block_delta","index":0,"delta":{"type":"text_delta","text":"lo"}}'',
      ''data: {"type":"content_block_stop","index":0}'',
      ''data: {"type":"message_stop","stop_reason":"end_turn","usage":{"input_tokens":5,"output_tokens":2}}''])
   = Inr \<lparr>ID = ''m1'', Role = ''assistant'', Content = [CreateTextBlock ''Hello''], Model = [],
          StopReason = ''end_turn'', StopSequence = [],
          Usage = \<lparr>InputTokens = 5, OutputTokens = 2\<rparr>\<rparr>\<close>
  by code_simp

end
